(* ===== verification/Prelude.thy ===== *)
theory Prelude
  imports Complex_Main "HOL-Library.AList" "HOL-Library.Multiset"
begin

text \<open>
  Shared vocabulary of the dedupe development: the Python exceptions the modelled code
  can raise, the result of a statement sequence that may raise after mutating state,
  Python's \<open>dict\<close> and \<open>collections.defaultdict\<close> as insertion-ordered association
  lists, \<open>str\<close> of an integer, and the list lemmas the component theories share.
\<close>

named_theorems dd_simps \<open>characteristic equations of the defaultdict helpers\<close>
named_theorems key_simps \<open>facts about block-key strings\<close>

section \<open>Python values and exceptions\<close>

type_synonym field = string

text \<open>A record (the \<open>instance\<close> of blocking.py) is a dict from field names to values;
  values are strings, the empty string being falsy.\<close>
type_synonym rec_dict = "field \<rightharpoonup> string"

datatype py_error =
    KeyError string
  | IndexError
  | AttributeError string
  | ValueError string
  | RuntimeError string

text \<open>
  A Python statement sequence that raises leaves the mutations it made before the raise
  in place. \<open>Done s\<close> is normal completion in state \<open>s\<close>; \<open>Raised e s\<close> is an
  exception \<open>e\<close> propagating out of state \<open>s\<close>.
\<close>
datatype 's outcome = Done 's | Raised py_error 's

primrec out_state :: "'s outcome \<Rightarrow> 's" where
  "out_state (Done s) = s"
| "out_state (Raised e s) = s"

primrec out_bind :: "'s outcome \<Rightarrow> ('s \<Rightarrow> 't outcome) \<Rightarrow> ('s \<Rightarrow> 't) \<Rightarrow> 't outcome" where
  "out_bind (Done s) f g = f s"
| "out_bind (Raised e s) f g = Raised e (g s)"

text \<open>A \<open>for\<close> loop whose body may raise: the first raise ends the loop.\<close>
fun out_fold :: "('a \<Rightarrow> 's \<Rightarrow> 's outcome) \<Rightarrow> 'a list \<Rightarrow> 's \<Rightarrow> 's outcome" where
  "out_fold f [] s = Done s"
| "out_fold f (x # xs) s = (case f x s of Done s' \<Rightarrow> out_fold f xs s' | Raised e s' \<Rightarrow> Raised e s')"

text \<open>A comprehension over a list whose element expression may raise.\<close>
fun map_err :: "('a \<Rightarrow> py_error + 'b) \<Rightarrow> 'a list \<Rightarrow> py_error + 'b list" where
  "map_err f [] = Inr []"
| "map_err f (x # xs) = (case f x of Inl e \<Rightarrow> Inl e
     | Inr y \<Rightarrow> (case map_err f xs of Inl e \<Rightarrow> Inl e | Inr ys \<Rightarrow> Inr (y # ys)))"

lemma out_fold_Done_inv:
  assumes "out_fold f xs s = Done s'" "P s" "\<And>x t t'. P t \<Longrightarrow> f x t = Done t' \<Longrightarrow> P t'"
  shows "P s'"
  using assms by (induction xs arbitrary: s) (auto split: outcome.splits)

lemma out_fold_append:
  "out_fold f (xs @ ys) s = (case out_fold f xs s of Done s' \<Rightarrow> out_fold f ys s' | Raised e s' \<Rightarrow> Raised e s')"
  by (induction xs arbitrary: s) (auto split: outcome.splits)

lemma out_fold_state_inv:
  assumes "P s" and step: "\<And>x t. P t \<Longrightarrow> P (out_state (f x t))"
  shows "P (out_state (out_fold f xs s))"
  using assms(1)
proof (induction xs arbitrary: s)
  case (Cons x xs)
  from step [OF Cons.prems, of x] show ?case by (cases "f x s") (auto intro: Cons.IH)
qed simp

lemma map_err_map: "(\<And>x. x \<in> set xs \<Longrightarrow> f x = Inr (g x)) \<Longrightarrow> map_err f xs = Inr (map g xs)"
  by (induction xs) auto

lemma map_err_Inr_iff: "(\<exists>ys. map_err f xs = Inr ys) \<longleftrightarrow> (\<forall>x \<in> set xs. \<exists>y. f x = Inr y)"
  by (induction xs) (auto split: sum.splits)

text \<open>\<open>xs[i]\<close> for \<open>i \<ge> 0\<close>: IndexError past the end.\<close>
definition nth_err :: "'a list \<Rightarrow> nat \<Rightarrow> py_error + 'a" where
  "nth_err xs i = (if i < length xs then Inr (xs ! i) else Inl IndexError)"

text \<open>\<open>d[k]\<close> on a plain dict.\<close>
definition dict_get :: "('k \<rightharpoonup> 'v) \<Rightarrow> 'k \<Rightarrow> string \<Rightarrow> py_error + 'v" where
  "dict_get m k name = (case m k of None \<Rightarrow> Inl (KeyError name) | Some v \<Rightarrow> Inr v)"

section \<open>defaultdict\<close>

text \<open>
  Reading a missing key of a \<open>defaultdict\<close> inserts the default at the end of the
  insertion order and returns it; the read therefore changes the dict.
\<close>
definition dd_get :: "'v \<Rightarrow> 'k \<Rightarrow> ('k \<times> 'v) list \<Rightarrow> 'v \<times> ('k \<times> 'v) list" where
  "dd_get d k al = (case map_of al k of Some v \<Rightarrow> (v, al) | None \<Rightarrow> (d, al @ [(k, d)]))"

text \<open>\<open>dd[k].append(x)\<close> for a \<open>defaultdict(list)\<close>.\<close>
definition dd_append :: "'k \<Rightarrow> 'v \<Rightarrow> ('k \<times> 'v list) list \<Rightarrow> ('k \<times> 'v list) list" where
  "dd_append k x al = (let (xs, al') = dd_get [] k al in AList.update k (xs @ [x]) al')"

lemma dd_get_present [dd_simps]: "map_of al k = Some v \<Longrightarrow> dd_get d k al = (v, al)"
  by (simp add: dd_get_def)

lemma dd_get_absent [dd_simps]: "map_of al k = None \<Longrightarrow> dd_get d k al = (d, al @ [(k, d)])"
  by (simp add: dd_get_def)

lemma map_of_dd_get: "map_of (snd (dd_get d k al)) k' =
    (if k' = k then Some (fst (dd_get d k al)) else map_of al k')"
  by (cases "map_of al k") (auto simp: dd_get_def map_of_append map_add_def split: option.splits)

lemma keys_dd_get [simp]: "fst ` set (snd (dd_get d k al)) = insert k (fst ` set al)"
proof (cases "map_of al k")
  case None
  then show ?thesis by (simp add: dd_get_def)
next
  case (Some v)
  then have "k \<in> fst ` set al" by (force dest: map_of_SomeD)
  with Some show ?thesis by (auto simp: dd_get_def)
qed

lemma distinct_dd_get [simp]: "distinct (map fst al) \<Longrightarrow> distinct (map fst (snd (dd_get d k al)))"
  by (cases "map_of al k") (simp_all add: dd_get_def, simp add: map_of_eq_None_iff)

lemma dd_append_eq: "dd_append k x al = AList.update k (fst (dd_get [] k al) @ [x]) (snd (dd_get [] k al))"
  by (simp add: dd_append_def split: prod.splits)

lemma map_of_dd_append [dd_simps]: "map_of (dd_append k x al) k' =
    (if k' = k then Some ((case map_of al k of None \<Rightarrow> [] | Some xs \<Rightarrow> xs) @ [x]) else map_of al k')"
  by (simp add: dd_append_eq update_conv map_of_dd_get) (simp add: dd_get_def split: option.splits)

lemma keys_dd_append [simp]: "fst ` set (dd_append k x al) = insert k (fst ` set al)"
proof -
  have "fst ` set (dd_append k x al) = insert k (fst ` set (snd (dd_get [] k al)))"
    by (simp add: dd_append_eq dom_update)
  then show ?thesis by simp
qed

lemma distinct_dd_append [simp]: "distinct (map fst al) \<Longrightarrow> distinct (map fst (dd_append k x al))"
  by (simp add: dd_append_eq distinct_update)

section \<open>\<open>str\<close> of an integer\<close>

definition digit_char :: "nat \<Rightarrow> char" where
  "digit_char d = char_of (48 + d)"

text \<open>\<open>str(n)\<close> for \<open>n \<ge> 0\<close>: decimal digits, most significant first, no leading zero.\<close>
fun str_nat :: "nat \<Rightarrow> string" where
  "str_nat n = (if n < 10 then [digit_char n] else str_nat (n div 10) @ [digit_char (n mod 10)])"

declare str_nat.simps [simp del]

lemma digit_char_simps [simp]:
  "digit_char 0 = CHR ''0''" "digit_char 1 = CHR ''1''" "digit_char 2 = CHR ''2''"
  "digit_char 3 = CHR ''3''" "digit_char 4 = CHR ''4''" "digit_char 5 = CHR ''5''"
  "digit_char 6 = CHR ''6''" "digit_char 7 = CHR ''7''" "digit_char 8 = CHR ''8''"
  "digit_char 9 = CHR ''9''" "digit_char (Suc 0) = CHR ''1''"
  by (simp_all add: digit_char_def char_of_def bit_simps)

definition str_int :: "int \<Rightarrow> string" where
  "str_int i = (if i < 0 then CHR ''-'' # str_nat (nat (- i)) else str_nat (nat i))"

definition is_digit :: "char \<Rightarrow> bool" where
  "is_digit c \<longleftrightarrow> (48::nat) \<le> of_char c \<and> of_char c < (58::nat)"

text \<open>\<open>int(s)\<close> on a string of digits.\<close>
definition read_nat :: "string \<Rightarrow> nat" where
  "read_nat s = foldl (\<lambda>acc c. 10 * acc + (of_char c - 48)) 0 s"

lemma of_char_digit_char [simp]: "d < 10 \<Longrightarrow> of_char (digit_char d) = 48 + d"
  by (simp add: digit_char_def)

lemma is_digit_digit_char [simp]: "d < 10 \<Longrightarrow> is_digit (digit_char d)"
  by (simp add: is_digit_def)

lemma str_nat_digits: "c \<in> set (str_nat n) \<Longrightarrow> is_digit c"
proof (induction n rule: str_nat.induct)
  case (1 n)
  then show ?case
    by (cases "n < 10") (auto simp: str_nat.simps [of n])
qed

lemma str_nat_not_Nil [simp]: "str_nat n \<noteq> []"
  by (simp add: str_nat.simps [of n])

lemma colon_not_digit [key_simps]: "\<not> is_digit CHR '':''"
  by (simp add: is_digit_def)

lemma colon_notin_str_nat [key_simps]: "CHR '':'' \<notin> set (str_nat n)"
  using str_nat_digits colon_not_digit by blast

lemma read_nat_snoc: "read_nat (s @ [c]) = 10 * read_nat s + (of_char c - 48)"
  by (simp add: read_nat_def)

lemma read_str_nat [simp]: "read_nat (str_nat n) = n"
proof (induction n rule: str_nat.induct)
  case (1 n)
  then show ?case
    by (cases "n < 10") (simp_all add: str_nat.simps [of n] read_nat_snoc read_nat_def)
qed

lemma str_nat_inj [key_simps]: "str_nat i = str_nat j \<longleftrightarrow> i = j"
  by (metis read_str_nat)

section \<open>Strings joined with a separator\<close>

text \<open>
  Where the right part of a concatenation cannot contain the separator, the split at the
  last separator is unique: the left and right parts are determined by the whole.
\<close>
lemma append_sep_first_unique:
  "ys1 @ c # zs1 = ys2 @ c # zs2 \<Longrightarrow> c \<notin> set ys1 \<Longrightarrow> c \<notin> set ys2 \<Longrightarrow> ys1 = ys2 \<and> zs1 = zs2"
proof (induction ys1 arbitrary: ys2)
  case Nil
  then show ?case by (cases ys2) auto
next
  case (Cons y ys1)
  then show ?case by (cases ys2) auto
qed

lemma append_sep_last_unique [key_simps]:
  assumes "c \<notin> set zs1" and "c \<notin> set zs2"
  shows "ys1 @ c # zs1 = ys2 @ c # zs2 \<longleftrightarrow> ys1 = ys2 \<and> zs1 = zs2"
proof
  assume "ys1 @ c # zs1 = ys2 @ c # zs2"
  then have "rev zs1 @ c # rev ys1 = rev zs2 @ c # rev ys2"
    by (metis rev_append rev.simps(2) append_assoc append_Cons append_Nil)
  with assms have "rev zs1 = rev zs2 \<and> rev ys1 = rev ys2"
    using append_sep_first_unique [of "rev zs1" c "rev ys1" "rev zs2" "rev ys2"] by simp
  then show "ys1 = ys2 \<and> zs1 = zs2" by simp
qed simp

section \<open>Lists\<close>

lemma list_all2_in_set2: "list_all2 P xs ys \<Longrightarrow> y \<in> set ys \<Longrightarrow> \<exists>x \<in> set xs. P x y"
  by (metis in_set_conv_nth list_all2_conv_all_nth nth_mem)

lemma list_all2_in_set1: "list_all2 P xs ys \<Longrightarrow> x \<in> set xs \<Longrightarrow> \<exists>y \<in> set ys. P x y"
  by (metis in_set_conv_nth list_all2_conv_all_nth nth_mem)

end
