(* ===== verification/Canopy.thy ===== *)
theory Canopy
  imports Prelude
begin

text \<open>
  The canopy index behind the TF-IDF search predicates (spec 4.1; its code is not under
  src/, so it is modelled from the spec). An index maps each distinct preprocessed
  document to an id given out in insertion order (\<open>_doc_to_id\<close>), and carries a flag
  for search-readiness: \<open>add\<close> and \<open>remove\<close> clear it, \<open>initSearch\<close> sets it,
  and a query on an index that is not search-ready is a fatal error. The similarity
  measure of a query (TF-IDF cosine in the library) is a parameter \<open>sim\<close> of the
  model: a neighbour of a query is an indexed document whose similarity to it reaches
  the predicate's threshold.
\<close>

type_synonym doc = "string list"
type_synonym similarity = "doc \<Rightarrow> doc \<Rightarrow> rat"

record canopy =
  doc_to_id :: "(doc \<times> nat) list"
  next_doc_id :: nat
  searchable :: bool

definition canopy_new :: canopy where
  "canopy_new = \<lparr>doc_to_id = [], next_doc_id = 0, searchable = False\<rparr>"

text \<open>\<open>index.index(doc)\<close>: a document already present keeps its id.\<close>
definition canopy_add :: "doc \<Rightarrow> canopy \<Rightarrow> canopy" where
  "canopy_add d c =
     (if d \<in> fst ` set (doc_to_id c) then c\<lparr>searchable := False\<rparr>
      else c\<lparr>doc_to_id := doc_to_id c @ [(d, next_doc_id c)],
             next_doc_id := Suc (next_doc_id c), searchable := False\<rparr>)"

text \<open>\<open>index.unindex(doc)\<close>: \<open>_doc_to_id.pop(doc)\<close> raises KeyError for an absent document.\<close>
definition canopy_remove :: "doc \<Rightarrow> canopy \<Rightarrow> py_error + canopy" where
  "canopy_remove d c =
     (if d \<in> fst ` set (doc_to_id c)
      then Inr (c\<lparr>doc_to_id := AList.delete d (doc_to_id c), searchable := False\<rparr>)
      else Inl (KeyError ''doc''))"

definition canopy_finalize :: "canopy \<Rightarrow> canopy" where
  "canopy_finalize c = c\<lparr>searchable := True\<rparr>"

definition canopy_search :: "similarity \<Rightarrow> rat \<Rightarrow> canopy \<Rightarrow> doc \<Rightarrow> py_error + nat list" where
  "canopy_search sim thr c q =
     (if searchable c then Inr [i. (d, i) \<leftarrow> doc_to_id c, thr \<le> sim q d]
      else Inl (RuntimeError ''search before initSearch''))"

definition canopy_docs :: "canopy \<Rightarrow> doc set" where
  "canopy_docs c = fst ` set (doc_to_id c)"

definition canopy_wf :: "canopy \<Rightarrow> bool" where
  "canopy_wf c \<longleftrightarrow> distinct (map fst (doc_to_id c)) \<and> distinct (map snd (doc_to_id c))
     \<and> (\<forall>i \<in> snd ` set (doc_to_id c). i < next_doc_id c)"

lemmas canopy_ops_defs = canopy_new_def canopy_add_def canopy_remove_def canopy_finalize_def

subsection \<open>The index keeps its well-formedness\<close>

lemma canopy_wf_new [simp]: "canopy_wf canopy_new"
  by (simp add: canopy_wf_def canopy_new_def)

lemma canopy_wf_add [simp]: "canopy_wf c \<Longrightarrow> canopy_wf (canopy_add d c)"
  by (auto simp: canopy_wf_def canopy_add_def)

lemma canopy_wf_finalize [simp]: "canopy_wf (canopy_finalize c) = canopy_wf c"
  by (simp add: canopy_wf_def canopy_finalize_def)

lemma canopy_wf_remove: "canopy_wf c \<Longrightarrow> canopy_remove d c = Inr c' \<Longrightarrow> canopy_wf c'"
proof -
  assume wf: "canopy_wf c" and rm: "canopy_remove d c = Inr c'"
  then have c': "doc_to_id c' = AList.delete d (doc_to_id c)" "next_doc_id c' = next_doc_id c"
    by (auto simp: canopy_remove_def split: if_splits)
  have sub: "set (doc_to_id c') \<subseteq> set (doc_to_id c)"
    by (auto simp: c' AList.delete_eq)
  from wf have "distinct (map fst (doc_to_id c'))" "distinct (map snd (doc_to_id c'))"
    by (simp_all add: canopy_wf_def c' AList.delete_eq distinct_map_filter)
  with wf sub show ?thesis
    by (auto simp: canopy_wf_def c'(2))
qed

subsection \<open>Contents\<close>

lemma canopy_docs_new [simp]: "canopy_docs canopy_new = {}"
  by (simp add: canopy_docs_def canopy_new_def)

lemma canopy_docs_add [simp]: "canopy_docs (canopy_add d c) = insert d (canopy_docs c)"
  by (auto simp: canopy_docs_def canopy_add_def)

lemma canopy_docs_finalize [simp]: "canopy_docs (canopy_finalize c) = canopy_docs c"
  by (simp add: canopy_docs_def canopy_finalize_def)

lemma canopy_remove_Inr_iff: "(\<exists>c'. canopy_remove d c = Inr c') \<longleftrightarrow> d \<in> canopy_docs c"
  by (simp add: canopy_remove_def canopy_docs_def)

lemma canopy_docs_remove:
  "canopy_remove d c = Inr c' \<Longrightarrow> canopy_docs c' = canopy_docs c - {d}"
  by (auto simp: canopy_remove_def canopy_docs_def AList.delete_eq split: if_splits)

lemma searchable_add [simp]: "\<not> searchable (canopy_add d c)"
  by (simp add: canopy_add_def)

lemma searchable_finalize [simp]: "searchable (canopy_finalize c)"
  by (simp add: canopy_finalize_def)

lemma searchable_remove: "canopy_remove d c = Inr c' \<Longrightarrow> \<not> searchable c'"
  by (auto simp: canopy_remove_def split: if_splits)

end
