(* ===== verification/Predicates.thy ===== *)
theory Predicates
  imports Canopy
begin

text \<open>
  Blocking predicates (spec 3 and 4.1; dedupe's predicates module is not under src/, so
  it is modelled from the spec and from the expectations of src/test/test_dedupe.py).
  An atomic predicate is an object with a field, a kind and, for the canopy kinds, an
  \<open>index\<close> attribute that is either None or a reference into the store of canopy
  indexes. Non-indexed kinds are pure functions of the field value; a canopy predicate
  queries its index. A compound predicate applies each atomic predicate and forms the
  cartesian product of their key lists, each combination joined with \<open>:\<close> after
  escaping the colons inside each part.
\<close>

section \<open>String helpers\<close>

text \<open>Maximal runs of characters satisfying \<open>P\<close>, left to right; \<open>cur\<close> is the
  current run, reversed.\<close>
fun runs_acc :: "(char \<Rightarrow> bool) \<Rightarrow> string \<Rightarrow> string \<Rightarrow> string list" where
  "runs_acc P cur [] = (if cur = [] then [] else [rev cur])"
| "runs_acc P cur (c # cs) =
     (if P c then runs_acc P (c # cur) cs
      else if cur = [] then runs_acc P [] cs else rev cur # runs_acc P [] cs)"

definition runs :: "(char \<Rightarrow> bool) \<Rightarrow> string \<Rightarrow> string list" where
  "runs P s = runs_acc P [] s"

definition is_space :: "char \<Rightarrow> bool" where
  "is_space c \<longleftrightarrow> c \<in> {CHR '' '', CHR 0x09, CHR 0x0A, CHR 0x0B, CHR 0x0C, CHR 0x0D}"

text \<open>\<open>str.split()\<close>: runs of non-whitespace.\<close>
definition py_split :: "string \<Rightarrow> string list" where
  "py_split s = runs (\<lambda>c. \<not> is_space c) s"

text \<open>\<open>re.compile(r"\d+").findall\<close>.\<close>
definition integers :: "string \<Rightarrow> string list" where
  "integers s = runs is_digit s"

text \<open>\<open>(field[:n],) if len(field) > n - 1 else ()\<close>.\<close>
definition initials :: "string \<Rightarrow> nat \<Rightarrow> string list" where
  "initials s n = (if n \<le> length s then [take n s] else [])"

text \<open>\<open>tuple(field[pos:pos + n] for pos in range(len(field) - n + 1))\<close>.\<close>
definition ngrams :: "string \<Rightarrow> nat \<Rightarrow> string list" where
  "ngrams s n = (if n \<le> length s then map (\<lambda>i. take n (drop i s)) [0..<length s - n + 1] else [])"

section \<open>Atomic predicates\<close>

datatype simple_fn =
    WholeField | TokenField | CommonInteger | NearIntegers | FirstChars nat | NGrams nat

datatype canopy_kind = TfidfText | TfidfNGram

text \<open>The kind of a predicate object; a canopy predicate carries its threshold.\<close>
datatype pkind = Simple simple_fn | Canopy canopy_kind rat

text \<open>\<open>predicate.type\<close>: canopy predicates of one class share a type whatever their
  threshold, so they share one index per field.\<close>
datatype ptype = SimpleType simple_fn | CanopyType canopy_kind

type_synonym hid = nat
type_synonym index_store = "hid \<Rightarrow> canopy"

record pred =
  pr_field :: field
  pr_kind :: pkind
  pr_index :: "hid option"

primrec kind_type :: "pkind \<Rightarrow> ptype" where
  "kind_type (Simple f) = SimpleType f"
| "kind_type (Canopy k t) = CanopyType k"

definition pred_type :: "pred \<Rightarrow> ptype" where
  "pred_type p = kind_type (pr_kind p)"

text \<open>\<open>hasattr(predicate, 'index')\<close>: only the canopy kinds have the attribute.\<close>
definition has_index :: "pred \<Rightarrow> bool" where
  "has_index p = (case pr_kind p of Canopy k t \<Rightarrow> True | Simple f \<Rightarrow> False)"

primrec simple_keys :: "simple_fn \<Rightarrow> string \<Rightarrow> string list" where
  "simple_keys WholeField s = [s]"
| "simple_keys TokenField s = py_split s"
| "simple_keys CommonInteger s = map (\<lambda>i. str_nat (read_nat i)) (integers s)"
| "simple_keys NearIntegers s =
     map str_int (sort (remdups (concat
       (map (\<lambda>i. [int (read_nat i) - 1, int (read_nat i), int (read_nat i) + 1]) (integers s)))))"
| "simple_keys (FirstChars n) s = initials s n"
| "simple_keys (NGrams n) s = ngrams s n"

text \<open>\<open>predicate.preprocess\<close> of the canopy classes: the document put in the index.\<close>
primrec preprocess :: "canopy_kind \<Rightarrow> string \<Rightarrow> doc" where
  "preprocess TfidfText s = py_split s"
| "preprocess TfidfNGram s = ngrams s 2"

text \<open>
  \<open>predicate(record, target=...)\<close>. An absent or empty field value gives no key. A
  canopy predicate whose index attribute is None raises (the library's "Attempting to
  block with an index predicate without indexing records"); otherwise its keys are the
  ids of the neighbours of the preprocessed value, as strings.
\<close>
definition atomic_keys :: "similarity \<Rightarrow> index_store \<Rightarrow> pred \<Rightarrow> rec_dict \<Rightarrow> py_error + string list" where
  "atomic_keys sim st p r =
     (case r (pr_field p) of None \<Rightarrow> Inr []
      | Some v \<Rightarrow> if v = [] then Inr [] else
          (case pr_kind p of
             Simple f \<Rightarrow> Inr (simple_keys f v)
           | Canopy k thr \<Rightarrow>
               (case pr_index p of
                  None \<Rightarrow> Inl (AttributeError ''index'')
                | Some h \<Rightarrow> map_sum id (map str_nat) (canopy_search sim thr (st h) (preprocess k v)))))"

section \<open>Compound predicates\<close>

definition backslash :: char where "backslash = CHR 0x5C"

text \<open>\<open>b.replace(':', '\\:')\<close>.\<close>
definition escape_colon :: "string \<Rightarrow> string" where
  "escape_colon s = concat (map (\<lambda>c. if c = CHR '':'' then [backslash, CHR '':''] else [c]) s)"

text \<open>\<open>':'.join(parts)\<close>.\<close>
fun join_colon :: "string list \<Rightarrow> string" where
  "join_colon [] = []"
| "join_colon [k] = k"
| "join_colon (k # ks) = k @ CHR '':'' # join_colon ks"

text \<open>
  \<open>CompoundPredicate.__call__\<close>: the key lists of the atomic predicates, in order
  (the first raise propagates), then \<open>itertools.product\<close> of them, which is
  \<open>product_lists\<close>.
\<close>
definition compound_keys :: "similarity \<Rightarrow> index_store \<Rightarrow> pred list \<Rightarrow> rec_dict \<Rightarrow> py_error + string list" where
  "compound_keys sim st ps r =
     (case map_err (\<lambda>p. atomic_keys sim st p r) ps of
        Inl e \<Rightarrow> Inl e
      | Inr kss \<Rightarrow> Inr (map (\<lambda>ks. join_colon (map escape_colon ks)) (product_lists kss)))"

end
