(* ===== verification/Blocker.thy ===== *)
theory Blocker
  imports Predicates
begin

text \<open>
  The Blocker of src/dedupe/blocking.py. Predicate objects are shared: one object sits in
  \<open>self.predicates\<close> (inside a compound predicate), in a bucket of
  \<open>self.index_fields\<close> and in \<open>self.index_predicates\<close>, and one canopy index is shared
  by every predicate of a (field, type) bucket. The model therefore keeps the objects in
  an explicit heap: predicates by identity (\<open>pid\<close>), canopy indexes by reference
  (\<open>hid\<close>), with an allocation counter for \<open>initIndex()\<close>. The Blocker's own
  attributes hold identities only. Methods that mutate return the new Blocker and heap
  as an \<open>outcome\<close>, which keeps the mutations made before an exception.
\<close>

type_synonym pid = nat

record heap =
  h_preds :: "pid \<Rightarrow> pred"
  h_idx :: index_store
  h_next :: hid

record blocker =
  b_predicates :: "pid list list"
  b_index_fields :: "(field \<times> (ptype \<times> pid list) list) list"
  b_index_predicates :: "pid list"

type_synonym bstate = "blocker \<times> heap"
type_synonym index_entry = "ptype \<times> hid \<times> canopy_kind"

section \<open>Heap operations\<close>

text \<open>\<open>predicate.initIndex()\<close>: a new, empty index object.\<close>
definition idx_alloc :: "heap \<Rightarrow> hid \<times> heap" where
  "idx_alloc h = (h_next h, h\<lparr>h_idx := (h_idx h)(h_next h := canopy_new), h_next := Suc (h_next h)\<rparr>)"

definition idx_update :: "(canopy \<Rightarrow> canopy) \<Rightarrow> hid \<Rightarrow> heap \<Rightarrow> heap" where
  "idx_update f x h = h\<lparr>h_idx := (h_idx h)(x := f (h_idx h x))\<rparr>"

text \<open>\<open>predicate.index = index\<close>; with \<open>None\<close> it is \<open>predicate.reset()\<close>.\<close>
definition set_pred_index :: "hid option \<Rightarrow> pid \<Rightarrow> heap \<Rightarrow> heap" where
  "set_pred_index x q h = h\<lparr>h_preds := (h_preds h)(q := (h_preds h q)\<lparr>pr_index := x\<rparr>)\<rparr>"

section \<open>\<open>Blocker.__init__\<close>\<close>

text \<open>\<open>dd[k1][k2].append(v)\<close> on a defaultdict of defaultdicts of lists.\<close>
definition dd2_append :: "'k \<Rightarrow> 'l \<Rightarrow> 'v \<Rightarrow> ('k \<times> ('l \<times> 'v list) list) list \<Rightarrow> ('k \<times> ('l \<times> 'v list) list) list" where
  "dd2_append k l v al = (let (inner, al') = dd_get [] k al in AList.update k (dd_append l v inner) al')"

text \<open>The body of the inner \<open>for predicate in full_predicate\<close> loop.\<close>
definition register_pred :: "heap \<Rightarrow> pid \<Rightarrow> blocker \<Rightarrow> blocker" where
  "register_pred h q b =
     (let p = h_preds h q in
      if has_index p
      then b\<lparr>b_index_fields := dd2_append (pr_field p) (pred_type p) q (b_index_fields b),
             b_index_predicates := b_index_predicates b @ [q]\<rparr>
      else b)"

definition blocker_init :: "heap \<Rightarrow> pid list list \<Rightarrow> blocker" where
  "blocker_init h preds =
     fold (\<lambda>fp b. fold (register_pred h) fp b) preds
       \<lparr>b_predicates = preds, b_index_fields = [], b_index_predicates = []\<rparr>"

section \<open>\<open>Blocker.__call__\<close>\<close>

text \<open>\<open>':' + str(i)\<close>, the suffix naming the compound predicate.\<close>
definition pred_id :: "nat \<Rightarrow> string" where
  "pred_id i = CHR '':'' # str_nat i"

text \<open>
  The generator's output up to its end or to the first exception: the yielded pairs, and
  the exception if one ends the iteration. The \<open>target\<close> flag is passed on to the
  predicates, whose modelled kinds do not depend on it.
\<close>
fun call_preds :: "similarity \<Rightarrow> heap \<Rightarrow> 'r \<Rightarrow> rec_dict \<Rightarrow> (nat \<times> pid list) list
    \<Rightarrow> (string \<times> 'r) list \<times> py_error option" where
  "call_preds sim h rid r [] = ([], None)"
| "call_preds sim h rid r ((i, fp) # ps) =
     (case compound_keys sim (h_idx h) (map (h_preds h) fp) r of
        Inl e \<Rightarrow> ([], Some e)
      | Inr ks \<Rightarrow> (let (out, e) = call_preds sim h rid r ps in
                   (map (\<lambda>k. (k @ pred_id i, rid)) ks @ out, e)))"

fun call_records :: "similarity \<Rightarrow> heap \<Rightarrow> (nat \<times> pid list) list \<Rightarrow> ('r \<times> rec_dict) list
    \<Rightarrow> (string \<times> 'r) list \<times> py_error option" where
  "call_records sim h ps [] = ([], None)"
| "call_records sim h ps ((rid, r) # rs) =
     (case call_preds sim h rid r ps of
        (out, Some e) \<Rightarrow> (out, Some e)
      | (out, None) \<Rightarrow> (let (out', e) = call_records sim h ps rs in (out @ out', e)))"

definition blocker_call :: "similarity \<Rightarrow> heap \<Rightarrow> blocker \<Rightarrow> ('r \<times> rec_dict) list \<Rightarrow> bool
    \<Rightarrow> (string \<times> 'r) list \<times> py_error option" where
  "blocker_call sim h b records target = call_records sim h (enumerate 0 (b_predicates b)) records"

section \<open>\<open>resetIndices\<close>\<close>

definition reset_indices :: "bstate \<Rightarrow> bstate" where
  "reset_indices s = (fst s, fold (set_pred_index None) (b_index_predicates (fst s)) (snd s))"

section \<open>\<open>extractIndices\<close>\<close>

text \<open>
  For each bucket, its first predicate's index, or a new one from \<open>initIndex()\<close>
  when that is None, with the first predicate's preprocessing. An empty bucket raises
  IndexError at \<open>predicates[0]\<close>; a predicate without an index attribute raises
  AttributeError. Indexes allocated before a raise are unreachable and so unobservable.
\<close>
fun extract_indices :: "(ptype \<times> pid list) list \<Rightarrow> heap \<Rightarrow> py_error + (index_entry list \<times> heap)" where
  "extract_indices [] h = Inr ([], h)"
| "extract_indices ((t, ps) # rest) h =
     (case ps of
        [] \<Rightarrow> Inl IndexError
      | q # _ \<Rightarrow>
          (case pr_kind (h_preds h q) of
             Simple f \<Rightarrow> Inl (AttributeError ''index'')
           | Canopy k thr \<Rightarrow>
               (let (x, h1) = (case pr_index (h_preds h q) of Some x \<Rightarrow> (x, h) | None \<Rightarrow> idx_alloc h) in
                (case extract_indices rest h1 of
                   Inl e \<Rightarrow> Inl e
                 | Inr (ixs, h2) \<Rightarrow> Inr ((t, x, k) # ixs, h2)))))"

section \<open>\<open>index\<close>, \<open>unindex\<close>, \<open>indexAll\<close>\<close>

text \<open>\<open>self.index_fields[field][index_type]\<close>, a key of the bucket dict.\<close>
definition bucket :: "(ptype \<times> pid list) list \<Rightarrow> ptype \<Rightarrow> pid list" where
  "bucket inner t = (case map_of inner t of Some ps \<Rightarrow> ps | None \<Rightarrow> [])"

text \<open>Lines 74-76: a non-empty document goes into every index of the field.\<close>
definition add_doc :: "index_entry list \<Rightarrow> string \<Rightarrow> heap \<Rightarrow> heap" where
  "add_doc ixs doc h =
     (if doc = [] then h
      else fold (\<lambda>(t, x, k). idx_update (canopy_add (preprocess k doc)) x) ixs h)"

text \<open>Lines 91-93, where \<open>index.unindex\<close> raises KeyError for a document it does not hold.\<close>
definition remove_doc :: "index_entry list \<Rightarrow> string \<Rightarrow> heap \<Rightarrow> heap outcome" where
  "remove_doc ixs doc h =
     (if doc = [] then Done h
      else out_fold (\<lambda>(t, x, k) h.
             (case canopy_remove (preprocess k doc) (h_idx h x) of
                Inl e \<Rightarrow> Raised e h
              | Inr c \<Rightarrow> Done (idx_update (\<lambda>_. c) x h))) ixs h)"

text \<open>
  Lines 78-84 and 95-101: finalise each index for search and publish it on every
  predicate of its bucket. \<open>unindex\<close> calls \<open>index._index.initSearch()\<close> where
  \<open>index\<close> calls \<open>index.initSearch()\<close>; both are the finalisation step of the spec.
\<close>
definition publish :: "(ptype \<times> pid list) list \<Rightarrow> index_entry list \<Rightarrow> heap \<Rightarrow> heap" where
  "publish inner ixs h =
     fold (\<lambda>(t, x, k) h. fold (set_pred_index (Some x)) (bucket inner t) (idx_update canopy_finalize x h))
       ixs h"

definition blocker_index :: "string list \<Rightarrow> field \<Rightarrow> bstate \<Rightarrow> bstate outcome" where
  "blocker_index data f s =
     (let (b, h) = s; (inner, fields') = dd_get [] f (b_index_fields b);
          b' = b\<lparr>b_index_fields := fields'\<rparr> in
      case extract_indices inner h of
        Inl e \<Rightarrow> Raised e (b', h)
      | Inr (ixs, h1) \<Rightarrow> Done (b', publish inner ixs (fold (add_doc ixs) data h1)))"

definition blocker_unindex :: "string list \<Rightarrow> field \<Rightarrow> bstate \<Rightarrow> bstate outcome" where
  "blocker_unindex data f s =
     (let (b, h) = s; (inner, fields') = dd_get [] f (b_index_fields b);
          b' = b\<lparr>b_index_fields := fields'\<rparr> in
      case extract_indices inner h of
        Inl e \<Rightarrow> Raised e (b', h)
      | Inr (ixs, h1) \<Rightarrow>
          (case out_fold (remove_doc ixs) data h1 of
             Raised e h2 \<Rightarrow> Raised e (b', h2)
           | Done h2 \<Rightarrow> Done (b', publish inner ixs h2)))"

text \<open>
  Lines 105-108: \<open>{record[field] for record in data_d.values() if record[field]}\<close>.
  A record without the field raises KeyError. The set's iteration order is that of the
  interpreter's hashing; the model takes the records' order without duplicates.
\<close>
definition field_values :: "field \<Rightarrow> ('r \<times> rec_dict) list \<Rightarrow> py_error + string list" where
  "field_values f recs =
     (case map_err (\<lambda>(rid, r). dict_get r f f) recs of
        Inl e \<Rightarrow> Inl e
      | Inr vs \<Rightarrow> Inr (remdups (filter (\<lambda>v. v \<noteq> []) vs)))"

definition blocker_index_all :: "('r \<times> rec_dict) list \<Rightarrow> bstate \<Rightarrow> bstate outcome" where
  "blocker_index_all recs s =
     out_fold (\<lambda>f s. case field_values f recs of Inl e \<Rightarrow> Raised e s | Inr vs \<Rightarrow> blocker_index vs f s)
       (map fst (b_index_fields (fst s))) s"

section \<open>Lemmas on \<open>__call__\<close>\<close>

lemma pred_id_suffix_inj [key_simps]: "k1 @ pred_id i = k2 @ pred_id j \<longleftrightarrow> k1 = k2 \<and> i = j"
  by (simp add: pred_id_def append_sep_last_unique colon_notin_str_nat str_nat_inj)

lemma call_preds_append:
  "call_preds sim h rid r (ps @ qs) =
     (case call_preds sim h rid r ps of
        (o1, Some e) \<Rightarrow> (o1, Some e)
      | (o1, None) \<Rightarrow> (o1 @ fst (call_preds sim h rid r qs), snd (call_preds sim h rid r qs)))"
  by (induction ps) (auto split: sum.splits prod.splits option.splits)

lemma call_preds_None_iff:
  "snd (call_preds sim h rid r ps) = None \<longleftrightarrow>
     (\<forall>(i, fp) \<in> set ps. \<exists>ks. compound_keys sim (h_idx h) (map (h_preds h) fp) r = Inr ks)"
  by (induction ps) (auto split: sum.splits prod.splits)

lemma call_preds_out:
  "snd (call_preds sim h rid r ps) = None \<Longrightarrow>
   (key, rid') \<in> set (fst (call_preds sim h rid r ps)) \<longleftrightarrow>
     rid' = rid \<and> (\<exists>(i, fp) \<in> set ps. \<exists>ks. compound_keys sim (h_idx h) (map (h_preds h) fp) r = Inr ks
        \<and> (\<exists>k \<in> set ks. key = k @ pred_id i))"
  by (induction ps) (auto split: sum.splits prod.splits)

lemma call_records_append:
  "call_records sim h ps (xs @ ys) =
     (case call_records sim h ps xs of
        (o1, Some e) \<Rightarrow> (o1, Some e)
      | (o1, None) \<Rightarrow> (o1 @ fst (call_records sim h ps ys), snd (call_records sim h ps ys)))"
  by (induction xs) (auto split: option.splits prod.splits)

lemma call_records_None_iff:
  "snd (call_records sim h ps recs) = None \<longleftrightarrow>
     (\<forall>(rid, r) \<in> set recs. snd (call_preds sim h rid r ps) = None)"
  by (induction recs) (auto split: option.splits prod.splits)

lemma call_preds_rid: "(key, rid') \<in> set (fst (call_preds sim h rid r ps)) \<Longrightarrow> rid' = rid"
  by (induction ps) (auto split: sum.splits prod.splits)

lemma call_records_out:
  "snd (call_records sim h ps recs) = None \<Longrightarrow>
   (key, rid) \<in> set (fst (call_records sim h ps recs)) \<longleftrightarrow>
     (\<exists>r. (rid, r) \<in> set recs \<and> (key, rid) \<in> set (fst (call_preds sim h rid r ps)))"
proof (induction recs)
  case Nil
  then show ?case by simp
next
  case (Cons x recs)
  obtain rid0 r0 where x: "x = (rid0, r0)" by fastforce
  obtain o1 where c: "call_preds sim h rid0 r0 ps = (o1, None)"
    using Cons.prems by (cases "call_preds sim h rid0 r0 ps") (auto simp: x split: option.splits prod.splits)
  have "(key, rid) \<in> set o1 \<Longrightarrow> rid = rid0"
    using call_preds_rid [of key rid sim h rid0 r0 ps] c by simp
  with Cons c show ?case
    by (auto simp: x split: prod.splits)
qed

section \<open>Buckets\<close>

definition field_buckets :: "blocker \<Rightarrow> field \<Rightarrow> (ptype \<times> pid list) list" where
  "field_buckets b f = (case map_of (b_index_fields b) f of Some inner \<Rightarrow> inner | None \<Rightarrow> [])"

definition index_bucket :: "blocker \<Rightarrow> field \<Rightarrow> ptype \<Rightarrow> pid list" where
  "index_bucket b f t = bucket (field_buckets b f) t"

definition in_bucket :: "heap \<Rightarrow> field \<Rightarrow> ptype \<Rightarrow> pid \<Rightarrow> bool" where
  "in_bucket h f t q \<longleftrightarrow> has_index (h_preds h q) \<and> pr_field (h_preds h q) = f \<and> pred_type (h_preds h q) = t"

lemma bucket_dd_append [dd_simps]:
  "bucket (dd_append t q inner) t' = bucket inner t' @ (if t' = t then [q] else [])"
  by (simp add: bucket_def map_of_dd_append split: option.splits)

lemma map_of_dd2_append [dd_simps]:
  "map_of (dd2_append k l v al) k' =
     (if k' = k then Some (dd_append l v (case map_of al k of None \<Rightarrow> [] | Some inner \<Rightarrow> inner))
      else map_of al k')"
  by (cases "map_of al k") (auto simp: dd2_append_def dd_get_def update_conv map_of_append map_add_def
      split: option.splits)

lemma index_bucket_register:
  "index_bucket (register_pred h q b) f t =
     index_bucket b f t @ (if in_bucket h f t q then [q] else [])"
  by (auto simp: register_pred_def index_bucket_def field_buckets_def in_bucket_def Let_def
      map_of_dd2_append bucket_dd_append split: option.splits)

lemma register_pred_fields [simp]:
  "b_predicates (register_pred h q b) = b_predicates b"
  "b_index_predicates (register_pred h q b) =
     b_index_predicates b @ (if has_index (h_preds h q) then [q] else [])"
  by (simp_all add: register_pred_def Let_def)

lemma index_bucket_fold_register:
  "index_bucket (fold (register_pred h) qs b) f t = index_bucket b f t @ filter (in_bucket h f t) qs"
  by (induction qs arbitrary: b) (simp_all add: index_bucket_register)

lemma fold_register_fields:
  "b_predicates (fold (register_pred h) qs b) = b_predicates b"
  "b_index_predicates (fold (register_pred h) qs b) =
     b_index_predicates b @ filter (\<lambda>q. has_index (h_preds h q)) qs"
  by (induction qs arbitrary: b) simp_all

lemma blocker_init_fold:
  "index_bucket (fold (\<lambda>fp. fold (register_pred h) fp) pss b) f t =
     index_bucket b f t @ filter (in_bucket h f t) (concat pss)
   \<and> b_predicates (fold (\<lambda>fp. fold (register_pred h) fp) pss b) = b_predicates b
   \<and> b_index_predicates (fold (\<lambda>fp. fold (register_pred h) fp) pss b) =
     b_index_predicates b @ filter (\<lambda>q. has_index (h_preds h q)) (concat pss)"
  by (induction pss arbitrary: b) (simp_all add: index_bucket_fold_register fold_register_fields)

lemma index_bucket_empty [simp]:
  "index_bucket \<lparr>b_predicates = ps, b_index_fields = [], b_index_predicates = qs\<rparr> f t = []"
  by (simp add: index_bucket_def field_buckets_def bucket_def)

text \<open>
  C20. \<open>Blocker.__init__\<close> keeps the compound predicates as given, lists in
  \<open>index_predicates\<close> exactly the atomic predicates that have an index attribute, in
  the order they occur, and files each of them in the bucket of its field and type.
\<close>
theorem blocker_init_spec:
  "b_predicates (blocker_init h preds) = preds
   \<and> b_index_predicates (blocker_init h preds) = filter (\<lambda>q. has_index (h_preds h q)) (concat preds)
   \<and> index_bucket (blocker_init h preds) f t = filter (in_bucket h f t) (concat preds)"
  using blocker_init_fold [of h preds "\<lparr>b_predicates = preds, b_index_fields = [], b_index_predicates = []\<rparr>" f t]
  by (simp add: blocker_init_def)

lemma blocker_call_out:
  assumes "blocker_call sim h b recs target = (out, None)"
  shows "(key, rid) \<in> set out \<longleftrightarrow>
     (\<exists>r i ks k. (rid, r) \<in> set recs \<and> i < length (b_predicates b)
        \<and> compound_keys sim (h_idx h) (map (h_preds h) (b_predicates b ! i)) r = Inr ks
        \<and> k \<in> set ks \<and> key = k @ pred_id i)"
proof -
  let ?ps = "enumerate 0 (b_predicates b)"
  from assms have none: "snd (call_records sim h ?ps recs) = None"
    and out: "out = fst (call_records sim h ?ps recs)"
    by (simp_all add: blocker_call_def)
  from none have "\<forall>(rid, r) \<in> set recs. snd (call_preds sim h rid r ?ps) = None"
    by (simp add: call_records_None_iff)
  then show ?thesis
    using call_records_out [OF none, of key rid]
    by (fastforce simp: out call_preds_out in_set_enumerate_eq)
qed

text \<open>
  C2. When blocking a record stream raises nothing, it yields exactly the pairs
  \<open>(k + ':' + str(i), record_id)\<close> for which the \<open>i\<close>-th compound predicate gives
  the key \<open>k\<close> on that record.
\<close>
theorem blocker_call_keys:
  assumes "blocker_call sim h b recs target = (out, None)"
  shows "(key, rid) \<in> set out \<longleftrightarrow>
     (\<exists>r i ks k. (rid, r) \<in> set recs \<and> i < length (b_predicates b)
        \<and> compound_keys sim (h_idx h) (map (h_preds h) (b_predicates b ! i)) r = Inr ks
        \<and> k \<in> set ks \<and> key = k @ pred_id i)"
  using assms by (rule blocker_call_out)

text \<open>
  C3. Block keys of different compound predicates never collide: two records share an
  emitted block key only when one and the same compound predicate gives both of them
  the same raw key.
\<close>
theorem blocker_call_shared_key:
  assumes "blocker_call sim h b recs target = (out, None)"
    and "(key, rid1) \<in> set out" and "(key, rid2) \<in> set out"
  shows "\<exists>i k r1 r2 ks1 ks2. i < length (b_predicates b) \<and> key = k @ pred_id i
     \<and> (rid1, r1) \<in> set recs \<and> (rid2, r2) \<in> set recs
     \<and> compound_keys sim (h_idx h) (map (h_preds h) (b_predicates b ! i)) r1 = Inr ks1
     \<and> compound_keys sim (h_idx h) (map (h_preds h) (b_predicates b ! i)) r2 = Inr ks2
     \<and> k \<in> set ks1 \<and> k \<in> set ks2"
proof -
  from assms(2) obtain r1 i1 ks1 k1 where 1: "(rid1, r1) \<in> set recs" "i1 < length (b_predicates b)"
      "compound_keys sim (h_idx h) (map (h_preds h) (b_predicates b ! i1)) r1 = Inr ks1"
      "k1 \<in> set ks1" "key = k1 @ pred_id i1"
    using blocker_call_out [OF assms(1)] by blast
  from assms(3) obtain r2 i2 ks2 k2 where 2: "(rid2, r2) \<in> set recs" "i2 < length (b_predicates b)"
      "compound_keys sim (h_idx h) (map (h_preds h) (b_predicates b ! i2)) r2 = Inr ks2"
      "k2 \<in> set ks2" "key = k2 @ pred_id i2"
    using blocker_call_out [OF assms(1)] by blast
  from 1(5) 2(5) have "k1 = k2 \<and> i1 = i2"
    by (simp add: pred_id_suffix_inj)
  with 1 2 show ?thesis by blast
qed

text \<open>
  \<open>__call__\<close> is a single pass over the record stream: on a concatenation it
  yields what it yields on the first part and, unless that raised, then what it yields
  on the second part.
\<close>
theorem blocker_call_append:
  "blocker_call sim h b (xs @ ys) target =
     (case blocker_call sim h b xs target of
        (o1, Some e) \<Rightarrow> (o1, Some e)
      | (o1, None) \<Rightarrow> (o1 @ fst (blocker_call sim h b ys target), snd (blocker_call sim h b ys target)))"
  unfolding blocker_call_def by (rule call_records_append)

end
