(* ===== verification/Blocker_Invariant.thy ===== *)
theory Blocker_Invariant
  imports Blocker
begin

text \<open>
  The well-formedness of a Blocker with its heap (\<open>bwf\<close>): buckets hold the index
  predicates of their field and type, all predicates of a bucket share one index, no
  index is shared between two buckets, and every index reference is allocated. With it
  the frame lemmas of the heap operations, the specification of \<open>extractIndices\<close>
  (\<open>extract_indices_spec\<close>), the footprint of the document loops (\<open>only_idx\<close>), and
  the step lemmas \<open>field_step\<close> and \<open>field_step_bwf\<close>: one \<open>index\<close> of a field
  keeps \<open>bwf\<close>, publishes a searchable index on every index predicate of the field,
  and leaves the predicates and indexes of the other fields untouched.
\<close>


section \<open>Heap frame lemmas\<close>

named_theorems heap_simps \<open>effects of the heap operations\<close>

lemma set_pred_index_simps [heap_simps]:
  "h_preds (set_pred_index v q h) = (h_preds h)(q := (h_preds h q)\<lparr>pr_index := v\<rparr>)"
  "h_idx (set_pred_index v q h) = h_idx h"
  "h_next (set_pred_index v q h) = h_next h"
  by (simp_all add: set_pred_index_def)

lemma idx_update_simps [heap_simps]:
  "h_preds (idx_update g x h) = h_preds h"
  "h_idx (idx_update g x h) = (h_idx h)(x := g (h_idx h x))"
  "h_next (idx_update g x h) = h_next h"
  by (simp_all add: idx_update_def)

lemma idx_alloc_simps [heap_simps]:
  "fst (idx_alloc h) = h_next h"
  "h_preds (snd (idx_alloc h)) = h_preds h"
  "h_idx (snd (idx_alloc h)) = (h_idx h)(h_next h := canopy_new)"
  "h_next (snd (idx_alloc h)) = Suc (h_next h)"
  by (simp_all add: idx_alloc_def)

lemma fold_set_pred_index:
  "h_preds (fold (set_pred_index v) qs h) q =
     (if q \<in> set qs then (h_preds h q)\<lparr>pr_index := v\<rparr> else h_preds h q)"
  "h_idx (fold (set_pred_index v) qs h) = h_idx h"
  "h_next (fold (set_pred_index v) qs h) = h_next h"
  by (induction qs arbitrary: h) (simp_all add: heap_simps)

text \<open>Operations that only move index references keep each predicate's field and kind.\<close>
definition same_shape :: "heap \<Rightarrow> heap \<Rightarrow> bool" where
  "same_shape h h' \<longleftrightarrow>
     (\<forall>q. pr_field (h_preds h' q) = pr_field (h_preds h q) \<and> pr_kind (h_preds h' q) = pr_kind (h_preds h q))"

lemma same_shape_refl [simp]: "same_shape h h"
  by (simp add: same_shape_def)

lemma same_shape_trans: "same_shape h1 h2 \<Longrightarrow> same_shape h2 h3 \<Longrightarrow> same_shape h1 h3"
  by (simp add: same_shape_def)

lemma same_shape_preds_eq: "h_preds h' = h_preds h \<Longrightarrow> same_shape h h'"
  by (simp add: same_shape_def)

lemma same_shape_fold_set_pred_index [simp]: "same_shape h (fold (set_pred_index v) qs h)"
  by (simp add: same_shape_def fold_set_pred_index)

lemma same_shape_in_bucket:
  "same_shape h h' \<Longrightarrow> in_bucket h' f t q = in_bucket h f t q"
  by (simp add: same_shape_def in_bucket_def has_index_def pred_type_def)

lemma same_shape_has_index:
  "same_shape h h' \<Longrightarrow> has_index (h_preds h' q) = has_index (h_preds h q)"
  by (simp add: same_shape_def has_index_def)

lemma same_shape_field_type:
  "same_shape h h' \<Longrightarrow> pr_field (h_preds h' q) = pr_field (h_preds h q)"
  "same_shape h h' \<Longrightarrow> pred_type (h_preds h' q) = pred_type (h_preds h q)"
  by (simp_all add: same_shape_def pred_type_def)

section \<open>\<open>extractIndices\<close>, the document loops, publication\<close>

text \<open>What \<open>extractIndices\<close> returns for a bucket: its type, the index of its first
  predicate (allocated) or a fresh one, and the first predicate's canopy class.\<close>
definition extract_rel :: "heap \<Rightarrow> heap \<Rightarrow> (ptype \<times> pid list) \<Rightarrow> index_entry \<Rightarrow> bool" where
  "extract_rel h h' tp e \<longleftrightarrow> (case (tp, e) of ((t, ps), (t', x, k)) \<Rightarrow>
     t' = t \<and> ps \<noteq> [] \<and> (\<exists>thr. pr_kind (h_preds h (hd ps)) = Canopy k thr)
     \<and> (pr_index (h_preds h (hd ps)) = Some x \<and> x < h_next h
        \<or> pr_index (h_preds h (hd ps)) = None \<and> h_next h \<le> x \<and> x < h_next h'))"

definition first_alloc :: "heap \<Rightarrow> (ptype \<times> pid list) list \<Rightarrow> bool" where
  "first_alloc h inner \<longleftrightarrow>
     (\<forall>(t, ps) \<in> set inner. \<forall>x. ps \<noteq> [] \<longrightarrow> pr_index (h_preds h (hd ps)) = Some x \<longrightarrow> x < h_next h)"

lemma extract_rel_base:
  assumes "extract_rel h1 h2 tp e" "h_preds h1 = h_preds h" "h_next h \<le> h_next h1"
    and "\<forall>x. snd tp \<noteq> [] \<longrightarrow> pr_index (h_preds h (hd (snd tp))) = Some x \<longrightarrow> x < h_next h"
  shows "extract_rel h h2 tp e"
  using assms by (auto simp: extract_rel_def split: prod.splits)

lemma extract_indices_spec:
  assumes "extract_indices inner h = Inr (ixs, h')" and "first_alloc h inner"
  shows "h_preds h' = h_preds h \<and> h_next h \<le> h_next h'
    \<and> (\<forall>y. y < h_next h \<longrightarrow> h_idx h' y = h_idx h y)
    \<and> list_all2 (extract_rel h h') inner ixs
    \<and> distinct [x. (t, x, k) \<leftarrow> ixs, h_next h \<le> x]
    \<and> (\<forall>(t, x, k) \<in> set ixs. h_next h \<le> x \<longrightarrow> h_idx h' x = canopy_new)"
  using assms
proof (induction inner h arbitrary: ixs h' rule: extract_indices.induct)
  case (1 h)
  then show ?case by simp
next
  case (2 t ps rest h)
  from "2.prems"(1) obtain q qs k thr where ps: "ps = q # qs" and kd: "pr_kind (h_preds h q) = Canopy k thr"
    by (auto split: list.splits pkind.splits)
  define xh1 where "xh1 = (case pr_index (h_preds h q) of Some x \<Rightarrow> (x, h) | None \<Rightarrow> idx_alloc h)"
  obtain x h1 where xh1': "xh1 = (x, h1)" by fastforce
  from "2.prems"(1) ps kd xh1' obtain ixs' where rest: "extract_indices rest h1 = Inr (ixs', h')"
      and ixs: "ixs = (t, x, k) # ixs'"
    by (auto simp: xh1_def split: sum.splits prod.splits)
  have h1: "h_preds h1 = h_preds h" "h_next h \<le> h_next h1" "\<forall>y < h_next h. h_idx h1 y = h_idx h y"
    using xh1' by (auto simp: xh1_def idx_alloc_def split: option.splits)
  have x: "pr_index (h_preds h q) = Some x \<and> x < h_next h \<and> h1 = h
      \<or> pr_index (h_preds h q) = None \<and> x = h_next h \<and> h_next h1 = Suc (h_next h) \<and> h_idx h1 x = canopy_new"
    using xh1' "2.prems"(2) ps by (auto simp: xh1_def first_alloc_def idx_alloc_def split: option.splits)
  have fa1: "first_alloc h1 rest"
    using "2.prems"(2) h1 by (fastforce simp: first_alloc_def)
  have IH: "h_preds h' = h_preds h1 \<and> h_next h1 \<le> h_next h'
    \<and> (\<forall>y. y < h_next h1 \<longrightarrow> h_idx h' y = h_idx h1 y)
    \<and> list_all2 (extract_rel h1 h') rest ixs'
    \<and> distinct [x. (t, x, k) \<leftarrow> ixs', h_next h1 \<le> x]
    \<and> (\<forall>(t, x, k) \<in> set ixs'. h_next h1 \<le> x \<longrightarrow> h_idx h' x = canopy_new)"
    using "2.IH" [OF ps kd, of "(x, h1)" x h1] xh1' rest fa1 by (simp add: xh1_def)
  from IH have IH_rel: "list_all2 (extract_rel h1 h') rest ixs'" by simp
  have rel': "list_all2 (extract_rel h h') rest ixs'"
  proof (rule list.rel_mono_strong [OF IH_rel])
    fix tp e assume tp: "tp \<in> set rest" and r: "extract_rel h1 h' tp e"
    have bound: "\<forall>x. snd tp \<noteq> [] \<longrightarrow> pr_index (h_preds h (hd (snd tp))) = Some x \<longrightarrow> x < h_next h"
      using "2.prems"(2) tp unfolding first_alloc_def by (cases tp) fastforce
    show "extract_rel h h' tp e"
      using extract_rel_base [OF r h1(1) h1(2) bound] .
  qed
  have split: "h_next h \<le> x' \<longleftrightarrow> h_next h1 \<le> x'" if "(t', x', k') \<in> set ixs'" for t' x' k'
  proof -
    from IH_rel that obtain tp where tp: "tp \<in> set rest" "extract_rel h1 h' tp (t', x', k')"
      by (blast dest: list_all2_in_set2)
    obtain t0 ps0 where tp0: "tp = (t0, ps0)" by fastforce
    from tp(2) have "h_next h1 \<le> x' \<or> ps0 \<noteq> [] \<and> pr_index (h_preds h1 (hd ps0)) = Some x'"
      by (auto simp: extract_rel_def tp0)
    moreover have "ps0 \<noteq> [] \<Longrightarrow> pr_index (h_preds h (hd ps0)) = Some x' \<Longrightarrow> x' < h_next h"
      using "2.prems"(2) tp(1) unfolding first_alloc_def tp0 by fastforce
    ultimately have "h_next h1 \<le> x' \<or> x' < h_next h"
      using h1(1) by auto
    with h1(2) show ?thesis by linarith
  qed
  have filt: "[x. (t, x, k) \<leftarrow> ixs', h_next h \<le> x] = [x. (t, x, k) \<leftarrow> ixs', h_next h1 \<le> x]"
    using split by (intro arg_cong [where f = concat] map_cong) auto
  have head: "extract_rel h h' (t, ps) (t, x, k)"
    using x kd IH h1 by (auto simp: extract_rel_def ps)
  show ?case
  proof (intro conjI)
    show "h_preds h' = h_preds h" "h_next h \<le> h_next h'" using IH h1 by simp_all
    show "\<forall>y<h_next h. h_idx h' y = h_idx h y" using IH h1 by simp
    show "list_all2 (extract_rel h h') ((t, ps) # rest) ixs" using head rel' by (simp add: ixs)
    show "distinct [x. (t, x, k) \<leftarrow> ixs, h_next h \<le> x]"
      using IH x filt by (auto simp: ixs)
    show "\<forall>(t, x, k) \<in> set ixs. h_next h \<le> x \<longrightarrow> h_idx h' x = canopy_new"
      using IH x split by (fastforce simp: ixs)
  qed
qed

definition handles :: "index_entry list \<Rightarrow> hid set" where
  "handles ixs = (\<lambda>(t, x, k). x) ` set ixs"

lemma in_handles: "(t, x, k) \<in> set ixs \<Longrightarrow> x \<in> handles ixs"
  by (force simp: handles_def)

text \<open>The heap relation of the document loops: only the indexes in \<open>X\<close> change.\<close>
definition only_idx :: "hid set \<Rightarrow> heap \<Rightarrow> heap \<Rightarrow> bool" where
  "only_idx X h h' \<longleftrightarrow> h_preds h' = h_preds h \<and> h_next h' = h_next h \<and> (\<forall>y. y \<notin> X \<longrightarrow> h_idx h' y = h_idx h y)"

lemma only_idx_refl [simp]: "only_idx X h h"
  by (simp add: only_idx_def)

lemma only_idx_trans: "only_idx X h1 h2 \<Longrightarrow> only_idx X h2 h3 \<Longrightarrow> only_idx X h1 h3"
  by (simp add: only_idx_def)

lemma only_idx_idx_update: "x \<in> X \<Longrightarrow> only_idx X h (idx_update g x h)"
  by (simp add: only_idx_def heap_simps)

lemma only_idx_fold:
  assumes "\<And>a h. a \<in> set as \<Longrightarrow> only_idx X h (f a h)"
  shows "only_idx X h (fold f as h)"
  using assms
proof (induction as arbitrary: h)
  case Nil
  then show ?case by simp
next
  case (Cons a as)
  then show ?case by (auto intro: only_idx_trans)
qed

lemma only_idx_out_fold:
  assumes "\<And>a h. a \<in> set as \<Longrightarrow> only_idx X h (out_state (f a h))"
  shows "only_idx X h (out_state (out_fold f as h))"
  using assms
proof (induction as arbitrary: h)
  case Nil
  then show ?case by simp
next
  case (Cons a as)
  show ?case
  proof (cases "f a h")
    case (Done h1)
    with Cons.prems have "only_idx X h h1" by (metis list.set_intros(1) out_state.simps(1))
    moreover have "only_idx X h1 (out_state (out_fold f as h1))"
      using Cons by simp
    ultimately show ?thesis using Done by (auto intro: only_idx_trans)
  next
    case (Raised e h1)
    with Cons.prems show ?thesis by (metis list.set_intros(1) out_fold.simps(2) outcome.simps(6) out_state.simps(2))
  qed
qed

lemma only_idx_add_doc: "only_idx (handles ixs) h (add_doc ixs doc h)"
  unfolding add_doc_def
  by (auto intro!: only_idx_fold only_idx_idx_update in_handles)

lemma only_idx_fold_add_doc: "only_idx (handles ixs) h (fold (add_doc ixs) data h)"
  by (rule only_idx_fold) (rule only_idx_add_doc)

lemma only_idx_remove_doc: "only_idx (handles ixs) h (out_state (remove_doc ixs doc h))"
  unfolding remove_doc_def
  by (auto intro!: only_idx_out_fold only_idx_idx_update in_handles split: sum.splits)

lemma only_idx_out_fold_remove_doc:
  "only_idx (handles ixs) h (out_state (out_fold (remove_doc ixs) data h))"
  by (rule only_idx_out_fold) (rule only_idx_remove_doc)


lemma canopy_finalize_idem [simp]: "canopy_finalize (canopy_finalize c) = canopy_finalize c"
  by (simp add: canopy_finalize_def)

lemma publish_Cons:
  "publish inner ((t, x, k) # ixs) h =
     publish inner ixs (fold (set_pred_index (Some x)) (bucket inner t) (idx_update canopy_finalize x h))"
  by (simp add: publish_def)

lemma publish_next [simp]: "h_next (publish inner ixs h) = h_next h"
  by (induction ixs arbitrary: h) (auto simp: publish_def heap_simps fold_set_pred_index)

lemma publish_idx:
  "h_idx (publish inner ixs h) y = (if y \<in> handles ixs then canopy_finalize (h_idx h y) else h_idx h y)"
proof (induction ixs arbitrary: h)
  case Nil
  then show ?case by (simp add: publish_def handles_def)
next
  case (Cons e ixs)
  obtain t x k where e: "e = (t, x, k)" by (cases e) auto
  show ?case
    by (simp add: e publish_Cons Cons.IH fold_set_pred_index heap_simps handles_def image_iff)
qed

lemma publish_preds_other:
  "(\<forall>(t, x, k) \<in> set ixs. q \<notin> set (bucket inner t)) \<Longrightarrow> h_preds (publish inner ixs h) q = h_preds h q"
proof (induction ixs arbitrary: h)
  case Nil
  then show ?case by (simp add: publish_def)
next
  case (Cons e ixs)
  obtain t x k where e: "e = (t, x, k)" by (cases e) auto
  with Cons show ?case
    by (simp add: publish_Cons fold_set_pred_index heap_simps)
qed

lemma publish_preds_same:
  assumes "\<forall>(t', x', k') \<in> set ixs. q \<in> set (bucket inner t') \<longrightarrow> x' = x"
  shows "h_preds (publish inner ixs h) q =
    (if \<exists>(t', x', k') \<in> set ixs. q \<in> set (bucket inner t') then (h_preds h q)\<lparr>pr_index := Some x\<rparr>
     else h_preds h q)"
  using assms
proof (induction ixs arbitrary: h)
  case Nil
  then show ?case by (simp add: publish_def)
next
  case (Cons e ixs)
  obtain t1 x1 k1 where e: "e = (t1, x1, k1)" by (cases e) auto
  let ?h1 = "fold (set_pred_index (Some x1)) (bucket inner t1) (idx_update canopy_finalize x1 h)"
  from Cons.prems have "h_preds (publish inner ixs ?h1) q =
    (if \<exists>(t', x', k') \<in> set ixs. q \<in> set (bucket inner t') then (h_preds ?h1 q)\<lparr>pr_index := Some x\<rparr>
     else h_preds ?h1 q)"
    by (intro Cons.IH) auto
  with Cons.prems show ?case
    by (auto simp: e publish_Cons fold_set_pred_index heap_simps)
qed

section \<open>The invariant\<close>

text \<open>The nested defaultdict: distinct keys, non-empty buckets of index predicates of the
  bucket's field and type.\<close>
definition fields_wf :: "bstate \<Rightarrow> bool" where
  "fields_wf s \<longleftrightarrow> (case s of (b, h) \<Rightarrow>
     distinct (map fst (b_index_fields b))
     \<and> (\<forall>(f, inner) \<in> set (b_index_fields b). distinct (map fst inner)
          \<and> (\<forall>(t, ps) \<in> set inner. ps \<noteq> [] \<and> (\<forall>q \<in> set ps. in_bucket h f t q))))"

text \<open>\<open>index_predicates\<close> lists the bucketed predicates, and every predicate with an index
  attribute among the compound predicates is one of them.\<close>
definition registry_wf :: "bstate \<Rightarrow> bool" where
  "registry_wf s \<longleftrightarrow> (case s of (b, h) \<Rightarrow>
     set (b_index_predicates b) = {q. \<exists>f t. q \<in> set (index_bucket b f t)}
     \<and> (\<forall>fp \<in> set (b_predicates b). \<forall>q \<in> set fp. has_index (h_preds h q) \<longrightarrow> q \<in> set (b_index_predicates b)))"

definition same_bucket :: "heap \<Rightarrow> pid \<Rightarrow> pid \<Rightarrow> bool" where
  "same_bucket h q q' \<longleftrightarrow> pr_field (h_preds h q) = pr_field (h_preds h q') \<and> pred_type (h_preds h q) = pred_type (h_preds h q')"

text \<open>The predicates of one bucket share their index, no index is shared by two buckets,
  and every index they refer to is allocated.\<close>
definition index_sharing :: "bstate \<Rightarrow> bool" where
  "index_sharing s \<longleftrightarrow> (case s of (b, h) \<Rightarrow>
     (\<forall>q \<in> set (b_index_predicates b). \<forall>q' \<in> set (b_index_predicates b).
        (same_bucket h q q' \<longrightarrow> pr_index (h_preds h q) = pr_index (h_preds h q'))
      \<and> (\<forall>x. pr_index (h_preds h q) = Some x \<longrightarrow> pr_index (h_preds h q') = Some x \<longrightarrow> same_bucket h q q'))
     \<and> (\<forall>q \<in> set (b_index_predicates b). \<forall>x. pr_index (h_preds h q) = Some x \<longrightarrow> x < h_next h))"

definition bwf :: "bstate \<Rightarrow> bool" where
  "bwf s \<longleftrightarrow> fields_wf s \<and> registry_wf s \<and> index_sharing s"

lemma index_sharingD:
  assumes "index_sharing (b, h)" "q \<in> set (b_index_predicates b)" "q' \<in> set (b_index_predicates b)"
  shows "same_bucket h q q' \<Longrightarrow> pr_index (h_preds h q) = pr_index (h_preds h q')"
    and "pr_index (h_preds h q) = Some x \<Longrightarrow> pr_index (h_preds h q') = Some x \<Longrightarrow> same_bucket h q q'"
  using assms unfolding index_sharing_def by blast+

lemma index_sharing_allocD:
  "index_sharing (b, h) \<Longrightarrow> q \<in> set (b_index_predicates b) \<Longrightarrow> pr_index (h_preds h q) = Some x \<Longrightarrow> x < h_next h"
  unfolding index_sharing_def by blast

lemma index_sharingI:
  assumes "\<And>q q'. q \<in> set (b_index_predicates b) \<Longrightarrow> q' \<in> set (b_index_predicates b) \<Longrightarrow>
      same_bucket h q q' \<Longrightarrow> pr_index (h_preds h q) = pr_index (h_preds h q')"
    and "\<And>q q' x. q \<in> set (b_index_predicates b) \<Longrightarrow> q' \<in> set (b_index_predicates b) \<Longrightarrow>
      pr_index (h_preds h q) = Some x \<Longrightarrow> pr_index (h_preds h q') = Some x \<Longrightarrow> same_bucket h q q'"
    and "\<And>q x. q \<in> set (b_index_predicates b) \<Longrightarrow> pr_index (h_preds h q) = Some x \<Longrightarrow> x < h_next h"
  shows "index_sharing (b, h)"
  using assms unfolding index_sharing_def by blast

lemma registry_wfD:
  assumes "registry_wf (b, h)"
  shows "q \<in> set (b_index_predicates b) \<longleftrightarrow> (\<exists>f t. q \<in> set (index_bucket b f t))"
    and "fp \<in> set (b_predicates b) \<Longrightarrow> q \<in> set fp \<Longrightarrow> has_index (h_preds h q) \<Longrightarrow> q \<in> set (b_index_predicates b)"
  using assms unfolding registry_wf_def by blast+

lemma index_bucket_in:
  "q \<in> set (index_bucket b f t) \<longleftrightarrow>
     (\<exists>inner ps. map_of (b_index_fields b) f = Some inner \<and> map_of inner t = Some ps \<and> q \<in> set ps)"
  by (auto simp: index_bucket_def field_buckets_def bucket_def split: option.splits)
     (metis option.simps(5))

lemma bwf_in_bucket: "fields_wf (b, h) \<Longrightarrow> q \<in> set (index_bucket b f t) \<Longrightarrow> in_bucket h f t q"
  by (fastforce simp: fields_wf_def index_bucket_in dest!: map_of_SomeD)

lemma bwf_ipred_bucket:
  assumes "fields_wf (b, h)" "registry_wf (b, h)" "q \<in> set (b_index_predicates b)"
  shows "in_bucket h (pr_field (h_preds h q)) (pred_type (h_preds h q)) q
    \<and> q \<in> set (index_bucket b (pr_field (h_preds h q)) (pred_type (h_preds h q)))"
proof -
  from assms(3) obtain f t where "q \<in> set (index_bucket b f t)"
    using registry_wfD(1) [OF assms(2)] by blast
  moreover from this assms(1) have "in_bucket h f t q" by (rule bwf_in_bucket [rotated])
  ultimately show ?thesis by (simp add: in_bucket_def)
qed

lemma field_buckets_dd_get: "fst (dd_get [] f (b_index_fields b)) = field_buckets b f"
  by (simp add: dd_get_def field_buckets_def split: option.splits)

lemma index_bucket_dd_get [simp]:
  "index_bucket (b\<lparr>b_index_fields := snd (dd_get [] f (b_index_fields b))\<rparr>) = index_bucket b"
  by (auto simp: fun_eq_iff index_bucket_def field_buckets_def bucket_def map_of_dd_get
      dd_get_def split: option.splits if_splits)

lemma extract_indices_Inr:
  "\<forall>(t, ps) \<in> set inner. ps \<noteq> [] \<and> has_index (h_preds h (hd ps)) \<Longrightarrow>
   \<exists>ixs h'. extract_indices inner h = Inr (ixs, h')"
proof (induction inner arbitrary: h)
  case Nil
  then show ?case by simp
next
  case (Cons tp rest)
  obtain t ps where tp: "tp = (t, ps)" by fastforce
  with Cons.prems obtain q qs k thr where ps: "ps = q # qs" and kd: "pr_kind (h_preds h q) = Canopy k thr"
    by (auto simp: has_index_def neq_Nil_conv split: pkind.splits)
  define h1 where "h1 = snd (case pr_index (h_preds h q) of Some x \<Rightarrow> (x, h) | None \<Rightarrow> idx_alloc h)"
  have "h_preds h1 = h_preds h" by (simp add: h1_def heap_simps split: option.splits)
  with Cons.prems obtain ixs h' where "extract_indices rest h1 = Inr (ixs, h')"
    using Cons.IH [of h1] by auto
  then show ?case
    by (auto simp: tp ps kd h1_def split: option.splits prod.splits)
qed


lemma list_all2_map_eq:
  "list_all2 P xs ys \<Longrightarrow> (\<And>x y. P x y \<Longrightarrow> f x = g y) \<Longrightarrow> map f xs = map g ys"
  by (induction xs arbitrary: ys) (auto simp: list_all2_Cons1)

lemma distinct_fresh_inj:
  assumes "distinct [x. (t, x, k) \<leftarrow> ixs, n \<le> x]" "distinct (map fst ixs)"
    and "(t, x, k) \<in> set ixs" "(t', x, k') \<in> set ixs" "n \<le> x"
  shows "t = t'"
proof -
  have eq: "[x. (t, x, k) \<leftarrow> ixs, n \<le> x] = map (\<lambda>(t, x, k). x) (filter (\<lambda>(t, x, k). n \<le> x) ixs)"
    by (induction ixs) auto
  from assms(1) have inj: "inj_on (\<lambda>(t, x, k). x) (set (filter (\<lambda>(t, x, k). n \<le> x) ixs))"
    by (simp add: eq distinct_map)
  from assms(3-5) have "(t, x, k) \<in> set (filter (\<lambda>(t, x, k). n \<le> x) ixs)"
    "(t', x, k') \<in> set (filter (\<lambda>(t, x, k). n \<le> x) ixs)" by auto
  with inj_onD [OF inj, of "(t, x, k)" "(t', x, k')"] have "(t, x, k) = (t', x, k')"
    by simp
  then show ?thesis by simp
qed

text \<open>The entry of a bucket: the index all its predicates share, or a fresh one when
  they have none.\<close>
definition entry_ok :: "blocker \<Rightarrow> heap \<Rightarrow> heap \<Rightarrow> field \<Rightarrow> index_entry \<Rightarrow> bool" where
  "entry_ok b h h1 f e \<longleftrightarrow> (case e of (t, x, k) \<Rightarrow>
     index_bucket b f t \<noteq> []
     \<and> ((\<forall>q \<in> set (index_bucket b f t). pr_index (h_preds h q) = Some x) \<and> x < h_next h
        \<or> (\<forall>q \<in> set (index_bucket b f t). pr_index (h_preds h q) = None) \<and> h_next h \<le> x \<and> x < h_next h1))"

lemma fields_wf_entry:
  assumes "fields_wf (b, h)" "(f, inner) \<in> set (b_index_fields b)"
  shows "distinct (map fst inner) \<and> (\<forall>(t, ps) \<in> set inner. ps \<noteq> [] \<and> (\<forall>q \<in> set ps. in_bucket h f t q))"
  using assms unfolding fields_wf_def by fastforce

lemma field_buckets_ok:
  assumes "fields_wf (b, h)"
  shows "distinct (map fst (field_buckets b f))
    \<and> (\<forall>(t, ps) \<in> set (field_buckets b f). ps \<noteq> [] \<and> (\<forall>q \<in> set ps. in_bucket h f t q))"
proof (cases "map_of (b_index_fields b) f")
  case None
  then show ?thesis by (simp add: field_buckets_def)
next
  case (Some inner)
  then show ?thesis
    using fields_wf_entry [OF assms map_of_SomeD [OF Some]] by (simp add: field_buckets_def)
qed

lemma field_entries:
  assumes wf: "bwf (b, h)" and ex: "extract_indices (field_buckets b f) h = Inr (ixs, h1)"
  shows "h_preds h1 = h_preds h" "h_next h \<le> h_next h1" "\<forall>y<h_next h. h_idx h1 y = h_idx h y"
    and "map fst ixs = map fst (field_buckets b f)"
    and "\<And>e. e \<in> set ixs \<Longrightarrow> entry_ok b h h1 f e"
    and "\<And>t x k x' k'. (t, x, k) \<in> set ixs \<Longrightarrow> (t, x', k') \<in> set ixs \<Longrightarrow> x = x'"
    and "\<And>t t' x k k'. (t, x, k) \<in> set ixs \<Longrightarrow> (t', x, k') \<in> set ixs \<Longrightarrow> t = t'"
proof -
  let ?inner = "field_buckets b f"
  have inner_ok: "distinct (map fst ?inner)" "\<forall>(t, ps) \<in> set ?inner. ps \<noteq> [] \<and> (\<forall>q \<in> set ps. in_bucket h f t q)"
    using wf field_buckets_ok [of b h f] by (simp_all add: bwf_def)
  have ib: "index_bucket b f t = ps" if "(t, ps) \<in> set ?inner" for t ps
    using that inner_ok(1) by (simp add: index_bucket_def bucket_def)
  from wf have fw: "fields_wf (b, h)" and rw: "registry_wf (b, h)" and sh: "index_sharing (b, h)"
    by (simp_all add: bwf_def)
  have ip: "q \<in> set (b_index_predicates b)" if "(t, ps) \<in> set ?inner" "q \<in> set ps" for t ps q
    using registry_wfD(1) [OF rw] that ib [OF that(1)] by blast
  have fa: "first_alloc h ?inner"
    unfolding first_alloc_def
  proof clarify
    fix t ps x assume "(t, ps) \<in> set ?inner" "ps \<noteq> []" "pr_index (h_preds h (hd ps)) = Some x"
    then show "x < h_next h" using ip index_sharing_allocD [OF sh] by (meson hd_in_set)
  qed
  note spec = extract_indices_spec [OF ex fa]
  then show "h_preds h1 = h_preds h" "h_next h \<le> h_next h1" "\<forall>y<h_next h. h_idx h1 y = h_idx h y"
    by simp_all
  from spec have rel: "list_all2 (extract_rel h h1) ?inner ixs" by simp
  show types: "map fst ixs = map fst ?inner"
    by (rule sym, rule list_all2_map_eq [OF rel]) (auto simp: extract_rel_def)
  have shared: "pr_index (h_preds h q) = pr_index (h_preds h q')"
    if "(t, ps) \<in> set ?inner" "q \<in> set ps" "q' \<in> set ps" for t ps q q'
  proof -
    from inner_ok(2) that have "in_bucket h f t q" "in_bucket h f t q'" by auto
    then have "same_bucket h q q'" by (simp add: same_bucket_def in_bucket_def)
    with index_sharingD(1) [OF sh ip [OF that(1,2)] ip [OF that(1,3)]] show ?thesis .
  qed
  show entry: "entry_ok b h h1 f e" if "e \<in> set ixs" for e
  proof -
    from list_all2_in_set2 [OF rel that] obtain tp where tp: "tp \<in> set ?inner" "extract_rel h h1 tp e"
      by blast
    obtain t ps x k where tpe: "tp = (t, ps)" "e = (t, x, k)"
      using tp(2) by (cases tp, cases e) (auto simp: extract_rel_def)
    from tp tpe have ne: "ps \<noteq> []" by (simp add: extract_rel_def)
    then have hd: "hd ps \<in> set ps" by simp
    have all: "\<forall>q \<in> set ps. pr_index (h_preds h q) = pr_index (h_preds h (hd ps))"
      using shared [OF tp(1) [unfolded tpe] _ hd] by blast
    have ibt: "index_bucket b f t = ps" using ib tp(1) tpe(1) by simp
    from tp(2) have "pr_index (h_preds h (hd ps)) = Some x \<and> x < h_next h
        \<or> pr_index (h_preds h (hd ps)) = None \<and> h_next h \<le> x \<and> x < h_next h1"
      by (simp add: extract_rel_def tpe)
    then show ?thesis
    proof
      assume "pr_index (h_preds h (hd ps)) = Some x \<and> x < h_next h"
      with all ne show ?thesis by (simp add: entry_ok_def tpe ibt)
    next
      assume "pr_index (h_preds h (hd ps)) = None \<and> h_next h \<le> x \<and> x < h_next h1"
      with all ne show ?thesis by (simp add: entry_ok_def tpe ibt)
    qed
  qed
  have dk: "distinct (map fst ixs)" using types inner_ok(1) by simp
  show "x = x'" if "(t, x, k) \<in> set ixs" "(t, x', k') \<in> set ixs" for t x k x' k'
    using eq_key_imp_eq_value [OF dk that] by simp
  show "t = t'" if e1: "(t, x, k) \<in> set ixs" and e2: "(t', x, k') \<in> set ixs" for t t' x k k'
  proof -
    from entry [OF e1] entry [OF e2] consider
      (old) "\<forall>q \<in> set (index_bucket b f t). pr_index (h_preds h q) = Some x"
            "\<forall>q \<in> set (index_bucket b f t'). pr_index (h_preds h q) = Some x"
            "index_bucket b f t \<noteq> []" "index_bucket b f t' \<noteq> []"
      | (fresh) "h_next h \<le> x"
      by (auto simp: entry_ok_def)
    then show ?thesis
    proof cases
      case old
      obtain q q' where q: "q \<in> set (index_bucket b f t)" and q': "q' \<in> set (index_bucket b f t')"
        using old(3,4) by (meson last_in_set)
      have "q \<in> set (b_index_predicates b)" "q' \<in> set (b_index_predicates b)"
        using registry_wfD(1) [OF rw] q q' by blast+
      with old q q' have "same_bucket h q q'"
        using index_sharingD(2) [OF sh] by blast
      moreover have "in_bucket h f t q" "in_bucket h f t' q'"
        using fw q q' by (simp_all add: bwf_in_bucket)
      ultimately show ?thesis by (simp add: same_bucket_def in_bucket_def)
    next
      case fresh
      from spec have "distinct [x. (t, x, k) \<leftarrow> ixs, h_next h \<le> x]" by simp
      from distinct_fresh_inj [OF this dk e1 e2 fresh] show ?thesis .
    qed
  qed
qed


lemma same_shape_publish: "same_shape h (publish inner ixs h)"
proof (induction ixs arbitrary: h)
  case Nil
  then show ?case by (simp add: publish_def)
next
  case (Cons e ixs)
  obtain t x k where e: "e = (t, x, k)" by (cases e) auto
  let ?h1 = "fold (set_pred_index (Some x)) (bucket inner t) (idx_update canopy_finalize x h)"
  have "same_shape h ?h1"
    using same_shape_fold_set_pred_index [of "idx_update canopy_finalize x h"]
    by (simp add: same_shape_def heap_simps)
  with Cons.IH [of ?h1] show ?case by (auto simp: e publish_Cons intro: same_shape_trans)
qed

definition field_ready :: "bstate \<Rightarrow> field \<Rightarrow> bool" where
  "field_ready s f \<longleftrightarrow> (case s of (b, h) \<Rightarrow>
     \<forall>q \<in> set (b_index_predicates b). pr_field (h_preds h q) = f \<longrightarrow>
       (\<exists>x. pr_index (h_preds h q) = Some x \<and> searchable (h_idx h x)))"

lemma field_step:
  assumes wf: "bwf (b, h)" and ex: "extract_indices (field_buckets b f) h = Inr (ixs, h1)"
    and mid: "only_idx (handles ixs) h1 h2"
    and h3: "h3 = publish (field_buckets b f) ixs h2"
    and b': "b' = b\<lparr>b_index_fields := snd (dd_get [] f (b_index_fields b))\<rparr>"
  shows "\<And>q. pr_field (h_preds h q) \<noteq> f \<Longrightarrow> h_preds h3 q = h_preds h q"
    and "\<And>q. q \<in> set (b_index_predicates b) \<Longrightarrow> pr_field (h_preds h q) = f \<Longrightarrow>
      \<exists>x k. (pred_type (h_preds h q), x, k) \<in> set ixs \<and> h_preds h3 q = (h_preds h q)\<lparr>pr_index := Some x\<rparr>"
    and "\<And>y. y \<in> handles ixs \<Longrightarrow> searchable (h_idx h3 y)"
    and "\<And>q y. q \<in> set (b_index_predicates b) \<Longrightarrow> pr_field (h_preds h q) \<noteq> f \<Longrightarrow>
      pr_index (h_preds h q) = Some y \<Longrightarrow> y \<notin> handles ixs \<and> h_idx h3 y = h_idx h y"
    and "same_shape h h3" and "h_next h \<le> h_next h3"
    and "\<And>e. e \<in> set ixs \<Longrightarrow> entry_ok b h h3 f e"
proof -
  let ?inner = "field_buckets b f"
  note E = field_entries [OF wf ex]
  from wf have fw: "fields_wf (b, h)" and rw: "registry_wf (b, h)" and sh: "index_sharing (b, h)"
    by (simp_all add: bwf_def)
  have mid': "h_preds h2 = h_preds h" "h_next h2 = h_next h1" "\<And>y. y \<notin> handles ixs \<Longrightarrow> h_idx h2 y = h_idx h1 y"
    using mid E(1) by (simp_all add: only_idx_def)
  have member: "in_bucket h f t q" if "q \<in> set (bucket ?inner t)" for q t
    using that fw bwf_in_bucket [of b h q f t] by (simp add: index_bucket_def)
  show other: "h_preds h3 q = h_preds h q" if "pr_field (h_preds h q) \<noteq> f" for q
  proof -
    have "\<forall>(t, x, k) \<in> set ixs. q \<notin> set (bucket ?inner t)"
      using that member by (auto simp: in_bucket_def)
    then show ?thesis by (simp add: h3 publish_preds_other mid'(1))
  qed
  show "\<exists>x k. (pred_type (h_preds h q), x, k) \<in> set ixs \<and> h_preds h3 q = (h_preds h q)\<lparr>pr_index := Some x\<rparr>"
    if q: "q \<in> set (b_index_predicates b)" "pr_field (h_preds h q) = f" for q
  proof -
    let ?t = "pred_type (h_preds h q)"
    have "q \<in> set (index_bucket b f ?t)"
      using bwf_ipred_bucket [OF fw rw q(1)] q(2) by simp
    then obtain ps where ps: "map_of ?inner ?t = Some ps" "q \<in> set ps"
      by (cases "map_of ?inner ?t") (auto simp: index_bucket_def bucket_def)
    then have "?t \<in> set (map fst ?inner)" by (force dest: map_of_SomeD)
    then have "?t \<in> set (map fst ixs)" using E(4) by simp
    then obtain x k where e: "(?t, x, k) \<in> set ixs" by auto
    have uniq: "\<forall>(t', x', k') \<in> set ixs. q \<in> set (bucket ?inner t') \<longrightarrow> x' = x"
    proof clarify
      fix t' x' k' assume "(t', x', k') \<in> set ixs" "q \<in> set (bucket ?inner t')"
      moreover from this(2) have "t' = ?t" using member by (simp add: in_bucket_def)
      ultimately show "x' = x" using E(6) e by blast
    qed
    have inb: "q \<in> set (bucket ?inner ?t)" using ps by (simp add: bucket_def)
    from publish_preds_same [OF uniq, of h2] e inb have "h_preds h3 q = (h_preds h2 q)\<lparr>pr_index := Some x\<rparr>"
      by (auto simp: h3)
    with e mid'(1) show ?thesis by auto
  qed
  show "searchable (h_idx h3 y)" if "y \<in> handles ixs" for y
    using that by (simp add: h3 publish_idx)
  show "y \<notin> handles ixs \<and> h_idx h3 y = h_idx h y"
    if q: "q \<in> set (b_index_predicates b)" "pr_field (h_preds h q) \<noteq> f" "pr_index (h_preds h q) = Some y" for q y
  proof -
    have y: "y < h_next h" using index_sharing_allocD [OF sh q(1,3)] .
    have "y \<notin> handles ixs"
    proof
      assume "y \<in> handles ixs"
      then obtain t k where e: "(t, y, k) \<in> set ixs" by (auto simp: handles_def)
      from E(5) [OF e] y have ne: "index_bucket b f t \<noteq> []"
        and all: "\<forall>q0 \<in> set (index_bucket b f t). pr_index (h_preds h q0) = Some y"
        by (auto simp: entry_ok_def)
      obtain q0 where q0: "q0 \<in> set (index_bucket b f t)" using ne by (meson last_in_set)
      have "q0 \<in> set (b_index_predicates b)" using registry_wfD(1) [OF rw] q0 by blast
      with q all q0 have "same_bucket h q0 q" using index_sharingD(2) [OF sh] by blast
      moreover have "in_bucket h f t q0" using fw q0 by (rule bwf_in_bucket)
      ultimately show False using q(2) by (simp add: same_bucket_def in_bucket_def)
    qed
    with y E(3) mid'(3) show ?thesis by (simp add: h3 publish_idx)
  qed
  show "same_shape h h3"
    using same_shape_publish [of h2 ?inner ixs] mid'(1) by (simp add: h3 same_shape_def)
  show "h_next h \<le> h_next h3"
    using E(2) mid'(2) by (simp add: h3)
  show "entry_ok b h h3 f e" if "e \<in> set ixs" for e
    using E(5) [OF that] mid'(2) by (auto simp: entry_ok_def h3 split: prod.splits)
qed


lemma set_dd_get: "set (snd (dd_get d k al)) \<subseteq> insert (k, d) (set al)"
  by (auto simp: dd_get_def split: option.splits)

lemma fields_wf_dd_get:
  assumes fw: "fields_wf (b, h)" and shape: "same_shape h h'"
  shows "fields_wf (b\<lparr>b_index_fields := snd (dd_get [] f (b_index_fields b))\<rparr>, h')"
proof -
  have "distinct (map fst inner) \<and> (\<forall>(t, ps) \<in> set inner. ps \<noteq> [] \<and> (\<forall>q \<in> set ps. in_bucket h' f0 t q))"
    if "(f0, inner) \<in> set (snd (dd_get [] f (b_index_fields b)))" for f0 inner
  proof -
    from that set_dd_get consider "(f0, inner) = (f, [])" | "(f0, inner) \<in> set (b_index_fields b)"
      by fastforce
    then show ?thesis
    proof cases
      case 2
      from fields_wf_entry [OF fw 2] show ?thesis by (simp add: same_shape_in_bucket [OF shape])
    qed simp
  qed
  then have "\<forall>(f0, inner) \<in> set (snd (dd_get [] f (b_index_fields b))).
      distinct (map fst inner) \<and> (\<forall>(t, ps) \<in> set inner. ps \<noteq> [] \<and> (\<forall>q \<in> set ps. in_bucket h' f0 t q))"
    by blast
  moreover have "distinct (map fst (b_index_fields b))" using fw by (simp add: fields_wf_def)
  ultimately show ?thesis unfolding fields_wf_def by simp
qed

lemma same_shape_same_bucket: "same_shape h h' \<Longrightarrow> same_bucket h' q q' = same_bucket h q q'"
  by (simp add: same_bucket_def same_shape_field_type)

lemma field_step_bwf:
  assumes wf: "bwf (b, h)" and ex: "extract_indices (field_buckets b f) h = Inr (ixs, h1)"
    and mid: "only_idx (handles ixs) h1 h2"
    and h3: "h3 = publish (field_buckets b f) ixs h2"
    and b': "b' = b\<lparr>b_index_fields := snd (dd_get [] f (b_index_fields b))\<rparr>"
  shows "bwf (b', h3)"
proof -
  note S = field_step [OF wf ex mid h3 b']
  note E = field_entries [OF wf ex]
  from wf have fw: "fields_wf (b, h)" and rw: "registry_wf (b, h)" and sh: "index_sharing (b, h)"
    by (simp_all add: bwf_def)
  have shape: "same_shape h h3" by (rule S(5))
  have fw': "fields_wf (b', h3)"
    unfolding b' by (rule fields_wf_dd_get [OF fw shape])
  have "registry_wf (b', h3) = registry_wf (b, h)"
    by (simp add: registry_wf_def b' same_shape_has_index [OF shape])
  with rw have rw': "registry_wf (b', h3)" by simp
  have idx3: "pr_field (h_preds h q) = f \<and> (\<exists>k. (pred_type (h_preds h q), y, k) \<in> set ixs)
      \<or> pr_field (h_preds h q) \<noteq> f \<and> pr_index (h_preds h q) = Some y"
    if q: "q \<in> set (b_index_predicates b)" and y: "pr_index (h_preds h3 q) = Some y" for q y
  proof (cases "pr_field (h_preds h q) = f")
    case True
    with S(2) [OF q] y show ?thesis by auto
  next
    case False
    with S(1) [OF False] y show ?thesis by simp
  qed
  have ip: "b_index_predicates b' = b_index_predicates b" by (simp add: b')
  have sh': "index_sharing (b', h3)"
  proof (rule index_sharingI, unfold ip)
    fix q q' assume q: "q \<in> set (b_index_predicates b)" and q': "q' \<in> set (b_index_predicates b)"
      and sb: "same_bucket h3 q q'"
    from sb have sb0: "same_bucket h q q'" by (simp add: same_shape_same_bucket [OF shape])
    show "pr_index (h_preds h3 q) = pr_index (h_preds h3 q')"
    proof (cases "pr_field (h_preds h q) = f")
      case True
      with sb0 have f': "pr_field (h_preds h q') = f" and ty: "pred_type (h_preds h q') = pred_type (h_preds h q)"
        by (simp_all add: same_bucket_def)
      from S(2) [OF q True] obtain x k where x: "(pred_type (h_preds h q), x, k) \<in> set ixs"
        "h_preds h3 q = (h_preds h q)\<lparr>pr_index := Some x\<rparr>" by blast
      from S(2) [OF q' f'] obtain x' k' where x': "(pred_type (h_preds h q'), x', k') \<in> set ixs"
        "h_preds h3 q' = (h_preds h q')\<lparr>pr_index := Some x'\<rparr>" by blast
      from E(6) [OF x(1)] x'(1) ty have "x = x'" by simp
      with x(2) x'(2) show ?thesis by simp
    next
      case False
      with sb0 have "pr_field (h_preds h q') \<noteq> f" by (simp add: same_bucket_def)
      with False S(1) index_sharingD(1) [OF sh q q' sb0] show ?thesis by simp
    qed
  next
    fix q q' x assume q: "q \<in> set (b_index_predicates b)" and q': "q' \<in> set (b_index_predicates b)"
      and a: "pr_index (h_preds h3 q) = Some x" and a': "pr_index (h_preds h3 q') = Some x"
    have fresh: False if "(t, x, k) \<in> set ixs" "p \<in> set (b_index_predicates b)"
      "pr_field (h_preds h p) \<noteq> f" "pr_index (h_preds h p) = Some x" for t k p
      using S(4) [OF that(2-4)] in_handles [OF that(1)] by blast
    from idx3 [OF q a] idx3 [OF q' a'] show "same_bucket h3 q q'"
      unfolding same_shape_same_bucket [OF shape]
    proof (elim disjE conjE exE)
      fix k k' assume "pr_field (h_preds h q) = f" "(pred_type (h_preds h q), x, k) \<in> set ixs"
        "pr_field (h_preds h q') = f" "(pred_type (h_preds h q'), x, k') \<in> set ixs"
      with E(7) show "same_bucket h q q'" by (simp add: same_bucket_def)
    next
      assume "pr_field (h_preds h q) \<noteq> f" "pr_index (h_preds h q) = Some x"
        "pr_field (h_preds h q') \<noteq> f" "pr_index (h_preds h q') = Some x"
      with index_sharingD(2) [OF sh q q'] show "same_bucket h q q'" by blast
    qed (use fresh q q' in blast)+
  next
    fix q x assume q: "q \<in> set (b_index_predicates b)" and a: "pr_index (h_preds h3 q) = Some x"
    from idx3 [OF q a] show "x < h_next h3"
    proof (elim disjE conjE exE)
      fix k assume "(pred_type (h_preds h q), x, k) \<in> set ixs"
      from S(7) [OF this] S(6) show "x < h_next h3" by (auto simp: entry_ok_def)
    next
      assume "pr_index (h_preds h q) = Some x"
      from index_sharing_allocD [OF sh q this] S(6) show "x < h_next h3" by simp
    qed
  qed
  show ?thesis using fw' rw' sh' by (simp add: bwf_def)
qed

end
