(* ===== verification/Blocker_Safety.thy ===== *)
theory Blocker_Safety
  imports Blocker_Invariant
begin

text \<open>
  The invariant \<open>bwf\<close> through the Blocker's operations: \<open>__init__\<close> establishes
  it, \<open>index\<close> and \<open>indexAll\<close> keep it and make the indexes of the fields they cover
  searchable and published on every index predicate, and on such a state
  \<open>__call__\<close> cannot raise.
\<close>


lemma field_ready_iff:
  "field_ready (b, h) f \<longleftrightarrow> (\<forall>q \<in> set (b_index_predicates b). pr_field (h_preds h q) = f \<longrightarrow>
       (\<exists>x. pr_index (h_preds h q) = Some x \<and> searchable (h_idx h x)))"
  by (simp add: field_ready_def)

lemma field_step_ready:
  assumes wf: "bwf (b, h)" and ex: "extract_indices (field_buckets b f) h = Inr (ixs, h1)"
    and mid: "only_idx (handles ixs) h1 h2"
    and h3: "h3 = publish (field_buckets b f) ixs h2"
    and b': "b' = b\<lparr>b_index_fields := snd (dd_get [] f (b_index_fields b))\<rparr>"
  shows "field_ready (b', h3) f" and "g \<noteq> f \<Longrightarrow> field_ready (b, h) g \<Longrightarrow> field_ready (b', h3) g"
proof -
  note S = field_step [OF wf ex mid h3 b']
  have ip: "b_index_predicates b' = b_index_predicates b" by (simp add: b')
  have fld: "pr_field (h_preds h3 q) = pr_field (h_preds h q)" for q
    by (rule same_shape_field_type(1) [OF S(5)])
  have "\<exists>x. pr_index (h_preds h3 q) = Some x \<and> searchable (h_idx h3 x)"
    if q: "q \<in> set (b_index_predicates b)" and f: "pr_field (h_preds h q) = f" for q
  proof -
    from S(2) [OF q f] obtain x k where "(pred_type (h_preds h q), x, k) \<in> set ixs"
      "h_preds h3 q = (h_preds h q)\<lparr>pr_index := Some x\<rparr>" by blast
    with S(3) in_handles show ?thesis by simp
  qed
  then show "field_ready (b', h3) f" by (simp add: field_ready_iff ip fld)
  have "\<exists>x. pr_index (h_preds h3 q) = Some x \<and> searchable (h_idx h3 x)"
    if g: "g \<noteq> f" and r: "field_ready (b, h) g"
      and q: "q \<in> set (b_index_predicates b)" and fq: "pr_field (h_preds h q) = g" for q
  proof -
    from r q fq obtain y where y: "pr_index (h_preds h q) = Some y" "searchable (h_idx h y)"
      by (auto simp: field_ready_iff)
    from fq g have "pr_field (h_preds h q) \<noteq> f" by simp
    with S(1) S(4) [OF q _ y(1)] y show ?thesis by simp
  qed
  then show "g \<noteq> f \<Longrightarrow> field_ready (b, h) g \<Longrightarrow> field_ready (b', h3) g"
    by (simp add: field_ready_iff ip fld)
qed

lemma blocker_index_step:
  assumes wf: "bwf s"
  shows "\<exists>s'. blocker_index data f s = Done s' \<and> bwf s' \<and> field_ready s' f
    \<and> (\<forall>g. g \<noteq> f \<longrightarrow> field_ready s g \<longrightarrow> field_ready s' g)
    \<and> fst s' = (fst s)\<lparr>b_index_fields := snd (dd_get [] f (b_index_fields (fst s)))\<rparr>"
proof -
  obtain b h where s: "s = (b, h)" by fastforce
  let ?b' = "b\<lparr>b_index_fields := snd (dd_get [] f (b_index_fields b))\<rparr>"
  have ok: "\<forall>(t, ps) \<in> set (field_buckets b f). ps \<noteq> [] \<and> has_index (h_preds h (hd ps))"
    using field_buckets_ok [of b h f] wf by (fastforce simp: s bwf_def in_bucket_def)
  obtain ixs h1 where ex: "extract_indices (field_buckets b f) h = Inr (ixs, h1)"
    using extract_indices_Inr [OF ok] by blast
  define h3 where "h3 = publish (field_buckets b f) ixs (fold (add_doc ixs) data h1)"
  have mid: "only_idx (handles ixs) h1 (fold (add_doc ixs) data h1)"
    by (rule only_idx_fold_add_doc)
  have wf': "bwf (b, h)" using wf by (simp add: s)
  have "blocker_index data f s = Done (?b', h3)"
    using ex by (simp add: blocker_index_def s h3_def dd_get_def field_buckets_def split: option.splits)
  moreover have "bwf (?b', h3)" by (rule field_step_bwf [OF wf' ex mid h3_def refl])
  moreover note R = field_step_ready [OF wf' ex mid h3_def refl]
  ultimately show ?thesis using s by auto
qed


definition indexes_ready :: "bstate \<Rightarrow> bool" where
  "indexes_ready s \<longleftrightarrow> (case s of (b, h) \<Rightarrow>
     \<forall>q \<in> set (b_index_predicates b). \<exists>x. pr_index (h_preds h q) = Some x \<and> searchable (h_idx h x))"

lemma atomic_keys_Inr:
  "(has_index p \<Longrightarrow> \<exists>x. pr_index p = Some x \<and> searchable (st x)) \<Longrightarrow> \<exists>ks. atomic_keys sim st p r = Inr ks"
  by (auto simp: atomic_keys_def has_index_def canopy_search_def split: option.splits pkind.splits)

lemma ready_call:
  assumes rw: "registry_wf (b, h)" and rd: "indexes_ready (b, h)"
  shows "snd (blocker_call sim h b recs target) = None"
proof -
  have "\<exists>ks. compound_keys sim (h_idx h) (map (h_preds h) fp) r = Inr ks" if fp: "fp \<in> set (b_predicates b)" for fp r
  proof -
    have "\<exists>ks. atomic_keys sim (h_idx h) (h_preds h q) r = Inr ks" if q: "q \<in> set fp" for q
      using registry_wfD(2) [OF rw fp q] rd by (intro atomic_keys_Inr) (auto simp: indexes_ready_def)
    then obtain kss where "map_err (\<lambda>p. atomic_keys sim (h_idx h) p r) (map (h_preds h) fp) = Inr kss"
      using map_err_Inr_iff [of "\<lambda>p. atomic_keys sim (h_idx h) p r" "map (h_preds h) fp"] by auto
    then show ?thesis by (simp add: compound_keys_def)
  qed
  then show ?thesis
    by (auto simp: blocker_call_def call_records_None_iff call_preds_None_iff enumerate_eq_zip
        dest: set_zip_rightD)
qed

lemma bwf_ipred_key:
  "bwf (b, h) \<Longrightarrow> q \<in> set (b_index_predicates b) \<Longrightarrow> pr_field (h_preds h q) \<in> fst ` set (b_index_fields b)"
  using bwf_ipred_bucket [of b h q] by (force simp: bwf_def index_bucket_in dest: map_of_SomeD)

definition index_field_step :: "('r \<times> rec_dict) list \<Rightarrow> field \<Rightarrow> bstate \<Rightarrow> bstate outcome" where
  "index_field_step recs f s = (case field_values f recs of Inl e \<Rightarrow> Raised e s | Inr vs \<Rightarrow> blocker_index vs f s)"

lemma index_all_fold:
  "bwf s \<Longrightarrow> set fs \<subseteq> fst ` set (b_index_fields (fst s)) \<Longrightarrow> out_fold (index_field_step recs) fs s = Done s' \<Longrightarrow>
   bwf s' \<and> fst s' = fst s \<and> (\<forall>f \<in> set fs. field_ready s' f)
     \<and> (\<forall>g. g \<notin> set fs \<longrightarrow> field_ready s g \<longrightarrow> field_ready s' g)"
proof (induction fs arbitrary: s)
  case Nil
  then show ?case by simp
next
  case (Cons f fs)
  from Cons.prems(2) obtain inner where key: "map_of (b_index_fields (fst s)) f = Some inner"
    by (auto dest: weak_map_of_SomeI)
  from Cons.prems(3) obtain vs where vs: "field_values f recs = Inr vs"
    by (cases "field_values f recs") (simp_all add: index_field_step_def)
  from blocker_index_step [OF Cons.prems(1), of vs f] key obtain s1
    where s1: "blocker_index vs f s = Done s1" "bwf s1" "field_ready s1 f"
      "\<forall>g. g \<noteq> f \<longrightarrow> field_ready s g \<longrightarrow> field_ready s1 g" "fst s1 = fst s"
    by (auto simp: dd_get_present)
  from vs s1(1) have "index_field_step recs f s = Done s1" by (simp add: index_field_step_def)
  with Cons.prems(3) have rest: "out_fold (index_field_step recs) fs s1 = Done s'" by simp
  from Cons.IH [OF s1(2) _ rest] Cons.prems(2) s1(5) have
    IH: "bwf s'" "fst s' = fst s1" "\<forall>f \<in> set fs. field_ready s' f"
      "\<forall>g. g \<notin> set fs \<longrightarrow> field_ready s1 g \<longrightarrow> field_ready s' g" by auto
  show ?case using IH s1 by auto
qed

lemma blocker_index_all_ready:
  assumes wf: "bwf s" and ok: "blocker_index_all recs s = Done s'"
  shows "bwf s' \<and> fst s' = fst s \<and> indexes_ready s'"
proof -
  have "out_fold (index_field_step recs) (map fst (b_index_fields (fst s))) s = Done s'"
    using ok by (simp add: blocker_index_all_def index_field_step_def [abs_def])
  from index_all_fold [OF wf _ this] have
    R: "bwf s'" "fst s' = fst s" "\<forall>f \<in> fst ` set (b_index_fields (fst s)). field_ready s' f" by auto
  obtain b h where s': "s' = (b, h)" by fastforce
  have "indexes_ready (b, h)"
    unfolding indexes_ready_def
  proof clarify
    fix q assume q: "q \<in> set (b_index_predicates b)"
    from bwf_ipred_key [of b h q] R(1,2) q s' have "pr_field (h_preds h q) \<in> fst ` set (b_index_fields (fst s))"
      by simp
    with R(3) q s' show "\<exists>x. pr_index (h_preds h q) = Some x \<and> searchable (h_idx h x)"
      by (auto simp: field_ready_def)
  qed
  with R s' show ?thesis by auto
qed

lemma index_all_call_safe:
  assumes "bwf s" and "blocker_index_all recs s = Done s'"
  shows "snd (blocker_call sim (snd s') (fst s') recs' target) = None"
proof -
  obtain b h where s': "s' = (b, h)" by fastforce
  from blocker_index_all_ready [OF assms] s' have "bwf (b, h)" "indexes_ready (b, h)" by auto
  then show ?thesis using ready_call [of b h] s' by (simp add: bwf_def)
qed


lemma fields_wf_map_of:
  "fields_wf (b, h) \<longleftrightarrow> distinct (map fst (b_index_fields b))
     \<and> (\<forall>f inner. map_of (b_index_fields b) f = Some inner \<longrightarrow> distinct (map fst inner)
          \<and> (\<forall>t ps. map_of inner t = Some ps \<longrightarrow> ps \<noteq> [] \<and> (\<forall>q \<in> set ps. in_bucket h f t q)))"
  (is "?l \<longleftrightarrow> ?r")
proof
  assume l: ?l
  have "distinct (map fst inner) \<and> (\<forall>t ps. map_of inner t = Some ps \<longrightarrow> ps \<noteq> [] \<and> (\<forall>q \<in> set ps. in_bucket h f t q))"
    if "map_of (b_index_fields b) f = Some inner" for f inner
    using fields_wf_entry [OF l map_of_SomeD [OF that]] by (fastforce dest: map_of_SomeD)
  with l show ?r by (simp add: fields_wf_def)
next
  assume r: ?r
  then have d: "distinct (map fst (b_index_fields b))" by blast
  have "distinct (map fst inner) \<and> (\<forall>(t, ps) \<in> set inner. ps \<noteq> [] \<and> (\<forall>q \<in> set ps. in_bucket h f t q))"
    if fi: "(f, inner) \<in> set (b_index_fields b)" for f inner
  proof -
    from fi d have m: "map_of (b_index_fields b) f = Some inner" by simp
    with r have di: "distinct (map fst inner)" by blast
    have "ps \<noteq> [] \<and> (\<forall>q \<in> set ps. in_bucket h f t q)" if "(t, ps) \<in> set inner" for t ps
    proof -
      from that di have "map_of inner t = Some ps" by simp
      with r m show ?thesis by blast
    qed
    with di show ?thesis by blast
  qed
  with d show ?l unfolding fields_wf_def by blast
qed

lemma distinct_dd2_append [simp]: "distinct (map fst al) \<Longrightarrow> distinct (map fst (dd2_append k l v al))"
proof -
  assume d: "distinct (map fst al)"
  obtain i al' where g: "dd_get [] k al = (i, al')" by fastforce
  with distinct_dd_get [OF d, of "[]" k] have "distinct (map fst al')" by simp
  with g show ?thesis by (simp add: dd2_append_def distinct_update)
qed

lemma fields_wf_register:
  assumes wf: "fields_wf (b, h)"
  shows "fields_wf (register_pred h q b, h)"
proof (cases "has_index (h_preds h q)")
  case True
  let ?f = "pr_field (h_preds h q)" and ?t = "pred_type (h_preds h q)"
  let ?F = "b_index_fields b"
  let ?old = "case map_of ?F ?f of None \<Rightarrow> [] | Some inner \<Rightarrow> inner"
  note wf' = wf [unfolded fields_wf_map_of]
  have old: "distinct (map fst ?old)"
    "\<And>t ps. map_of ?old t = Some ps \<Longrightarrow> ps \<noteq> [] \<and> (\<forall>q \<in> set ps. in_bucket h ?f t q)"
  proof -
    show "distinct (map fst ?old)"
      using wf' by (cases "map_of ?F ?f") (simp_all del: map_of_eq_Some_iff)
    show "ps \<noteq> [] \<and> (\<forall>q \<in> set ps. in_bucket h ?f t q)" if "map_of ?old t = Some ps" for t ps
      using wf' that by (cases "map_of ?F ?f") (simp_all del: map_of_eq_Some_iff)
  qed
  have new: "in_bucket h ?f ?t q" using True by (simp add: in_bucket_def)
  have "distinct (map fst inner) \<and> (\<forall>t ps. map_of inner t = Some ps \<longrightarrow> ps \<noteq> [] \<and> (\<forall>q' \<in> set ps. in_bucket h f0 t q'))"
    if m: "map_of (dd2_append ?f ?t q ?F) f0 = Some inner" for f0 inner
  proof (cases "f0 = ?f")
    case True
    with m have inner: "inner = dd_append ?t q ?old" by (simp add: map_of_dd2_append)
    have "ps \<noteq> [] \<and> (\<forall>q' \<in> set ps. in_bucket h f0 t q')" if "map_of inner t = Some ps" for t ps
    proof (cases "t = ?t")
      case tt: True
      from that tt have ps: "ps = (case map_of ?old ?t of None \<Rightarrow> [] | Some xs \<Rightarrow> xs) @ [q]"
        by (simp add: inner map_of_dd_append)
      show ?thesis
      proof (cases "map_of ?old ?t")
        case None
        with ps new True tt show ?thesis by simp
      next
        case (Some xs)
        with ps old(2) [OF Some] new True tt show ?thesis by simp
      qed
    next
      case False
      with that have "map_of ?old t = Some ps" by (simp add: inner map_of_dd_append)
      from old(2) [OF this] True show ?thesis by simp
    qed
    with old(1) inner show ?thesis by simp
  next
    case False
    with m have "map_of ?F f0 = Some inner" by (simp add: map_of_dd2_append del: map_of_eq_Some_iff)
    with wf' show ?thesis by blast
  qed
  moreover have "b_index_fields (register_pred h q b) = dd2_append ?f ?t q ?F"
    using True by (simp add: register_pred_def Let_def)
  moreover have "distinct (map fst (dd2_append ?f ?t q ?F))"
    using wf' by simp
  ultimately show ?thesis unfolding fields_wf_map_of by simp
next
  case False
  then have "register_pred h q b = b" by (simp add: register_pred_def Let_def)
  with wf show ?thesis by simp
qed

lemma fields_wf_init: "fields_wf (blocker_init h preds, h)"
proof -
  have F: "fields_wf (fold (\<lambda>fp. fold (register_pred h) fp) pss b, h)" if "fields_wf (b, h)" for pss b
    using that
  proof (induction pss arbitrary: b)
    case (Cons fp pss)
    have "fields_wf (fold (register_pred h) fp b, h)"
      using Cons.prems
    proof (induction fp arbitrary: b)
      case (Cons q qs)
      from fields_wf_register [OF Cons.prems] show ?case by (simp add: Cons.IH)
    qed simp
    then show ?case by (simp add: Cons.IH)
  qed simp
  show ?thesis unfolding blocker_init_def by (rule F) (simp add: fields_wf_def)
qed


lemma blocker_init_fields:
  "b_predicates (blocker_init h preds) = preds"
  "b_index_predicates (blocker_init h preds) = filter (\<lambda>q. has_index (h_preds h q)) (concat preds)"
  "index_bucket (blocker_init h preds) f t = filter (in_bucket h f t) (concat preds)"
  using blocker_init_fold [of h preds "\<lparr>b_predicates = preds, b_index_fields = [], b_index_predicates = []\<rparr>" f t]
  by (simp_all add: blocker_init_def)

lemma bwf_init:
  assumes fresh: "\<forall>q \<in> set (concat preds). has_index (h_preds h q) \<longrightarrow> pr_index (h_preds h q) = None"
  shows "bwf (blocker_init h preds, h)"
proof -
  have rw: "registry_wf (blocker_init h preds, h)"
    unfolding registry_wf_def
    by (auto simp: blocker_init_fields in_bucket_def)
  have sh: "index_sharing (blocker_init h preds, h)"
    by (rule index_sharingI) (use fresh in \<open>auto simp: blocker_init_fields\<close>)
  from fields_wf_init rw sh show ?thesis by (simp add: bwf_def)
qed

lemma index_sharing_mono:
  assumes sh: "index_sharing (b, h)" and p: "h_preds h' = h_preds h" and n: "h_next h \<le> h_next h'"
    and ip: "b_index_predicates b' = b_index_predicates b"
  shows "index_sharing (b', h')"
proof (rule index_sharingI, unfold ip)
  have sb: "same_bucket h' q q' = same_bucket h q q'" for q q' by (simp add: same_bucket_def p)
  show "pr_index (h_preds h' q) = pr_index (h_preds h' q')"
    if "q \<in> set (b_index_predicates b)" "q' \<in> set (b_index_predicates b)" "same_bucket h' q q'" for q q'
    using index_sharingD(1) [OF sh that(1,2)] that(3) by (simp add: sb p)
  show "same_bucket h' q q'"
    if "q \<in> set (b_index_predicates b)" "q' \<in> set (b_index_predicates b)"
      "pr_index (h_preds h' q) = Some x" "pr_index (h_preds h' q') = Some x" for q q' x
    using index_sharingD(2) [OF sh that(1,2)] that(3,4) by (simp add: sb p)
  show "x < h_next h'" if "q \<in> set (b_index_predicates b)" "pr_index (h_preds h' q) = Some x" for q x
    using index_sharing_allocD [OF sh that(1)] that(2) n by (simp add: p)
qed

lemma bwf_mid:
  assumes wf: "bwf (b, h)" and ex: "extract_indices (field_buckets b f) h = Inr (ixs, h1)"
    and mid: "only_idx X h1 h2"
    and b': "b' = b\<lparr>b_index_fields := snd (dd_get [] f (b_index_fields b))\<rparr>"
  shows "bwf (b', h2)"
proof -
  note E = field_entries [OF wf ex]
  from wf have fw: "fields_wf (b, h)" and rw: "registry_wf (b, h)" and sh: "index_sharing (b, h)"
    by (simp_all add: bwf_def)
  have p: "h_preds h2 = h_preds h" and n: "h_next h \<le> h_next h2"
    using mid E(1,2) by (simp_all add: only_idx_def)
  have shape: "same_shape h h2" by (rule same_shape_preds_eq [OF p])
  have "fields_wf (b', h2)" unfolding b' by (rule fields_wf_dd_get [OF fw shape])
  moreover have "registry_wf (b', h2) = registry_wf (b, h)"
    by (simp add: registry_wf_def b' same_shape_has_index [OF shape])
  moreover have "index_sharing (b', h2)"
    by (rule index_sharing_mono [OF sh p n]) (simp add: b')
  ultimately show ?thesis using rw by (simp add: bwf_def)
qed

lemma field_extract:
  assumes wf: "bwf (b, h)"
  obtains ixs h1 where "extract_indices (field_buckets b f) h = Inr (ixs, h1)"
proof -
  have "\<forall>(t, ps) \<in> set (field_buckets b f). ps \<noteq> [] \<and> has_index (h_preds h (hd ps))"
    using field_buckets_ok [of b h f] wf by (fastforce simp: bwf_def in_bucket_def)
  from extract_indices_Inr [OF this] that show ?thesis by blast
qed

lemma blocker_unindex_cases:
  assumes wf: "bwf (b, h)"
  obtains ixs h1 h2 where "extract_indices (field_buckets b f) h = Inr (ixs, h1)"
      "only_idx (handles ixs) h1 h2"
      "blocker_unindex data f (b, h) = Done (b\<lparr>b_index_fields := snd (dd_get [] f (b_index_fields b))\<rparr>,
          publish (field_buckets b f) ixs h2)"
  | ixs h1 h2 e where "extract_indices (field_buckets b f) h = Inr (ixs, h1)"
      "only_idx (handles ixs) h1 h2"
      "blocker_unindex data f (b, h) = Raised e (b\<lparr>b_index_fields := snd (dd_get [] f (b_index_fields b))\<rparr>, h2)"
proof -
  obtain ixs h1 where ex: "extract_indices (field_buckets b f) h = Inr (ixs, h1)"
    using field_extract [OF wf] by blast
  obtain fs' where dd: "dd_get [] f (b_index_fields b) = (field_buckets b f, fs')"
    using field_buckets_dd_get [of f b] by (metis prod.collapse)
  have mid: "only_idx (handles ixs) h1 (out_state (out_fold (remove_doc ixs) data h1))"
    by (rule only_idx_out_fold_remove_doc)
  show ?thesis
  proof (cases "out_fold (remove_doc ixs) data h1")
    case (Done h2)
    with that(1) [OF ex, of h2] mid ex dd show ?thesis by (simp add: blocker_unindex_def)
  next
    case (Raised e h2)
    with that(2) [OF ex, of h2 e] mid ex dd show ?thesis by (simp add: blocker_unindex_def)
  qed
qed


lemma reset_indices_preds:
  "q \<in> set (b_index_predicates b) \<Longrightarrow>
   h_preds (snd (reset_indices (b, h))) q = (h_preds h q)\<lparr>pr_index := None\<rparr>"
  by (simp add: reset_indices_def fold_set_pred_index)

lemma compound_keys_Inl:
  assumes "p \<in> set ps" "atomic_keys sim st p r = Inl e"
  shows "\<nexists>ks. compound_keys sim st ps r = Inr ks"
proof -
  from assms have "\<nexists>ys. map_err (\<lambda>p. atomic_keys sim st p r) ps = Inr ys"
    unfolding map_err_Inr_iff by force
  then show ?thesis by (auto simp: compound_keys_def split: sum.splits)
qed

lemma blocker_call_raises:
  assumes "fp \<in> set (b_predicates b)" "(rid, r) \<in> set recs"
    and "\<nexists>ks. compound_keys sim (h_idx h) (map (h_preds h) fp) r = Inr ks"
  shows "snd (blocker_call sim h b recs target) \<noteq> None"
proof -
  from assms(1) obtain i where "i < length (b_predicates b)" "b_predicates b ! i = fp"
    by (auto simp: in_set_conv_nth)
  then have "(i, fp) \<in> set (enumerate 0 (b_predicates b))" by (simp add: in_set_enumerate_eq)
  with assms(3) have "snd (call_preds sim h rid r (enumerate 0 (b_predicates b))) \<noteq> None"
    unfolding call_preds_None_iff by blast
  with assms(2) show ?thesis
    unfolding blocker_call_def call_records_None_iff by fastforce
qed

lemma field_values_Inr:
  "\<forall>(rid, r) \<in> set recs. r f \<noteq> None \<Longrightarrow> \<exists>vs. field_values f recs = Inr vs"
proof -
  assume "\<forall>(rid, r) \<in> set recs. r f \<noteq> None"
  then have "\<exists>vs. map_err (\<lambda>(rid, r). dict_get r f f) recs = Inr vs"
    unfolding map_err_Inr_iff by (fastforce simp: dict_get_def)
  then show ?thesis by (auto simp: field_values_def)
qed

lemma index_all_fold_Done:
  "bwf s \<Longrightarrow> set fs \<subseteq> fst ` set (b_index_fields (fst s)) \<Longrightarrow>
   \<forall>f \<in> set fs. \<forall>(rid, r) \<in> set recs. r f \<noteq> None \<Longrightarrow>
   \<exists>s'. out_fold (index_field_step recs) fs s = Done s'"
proof (induction fs arbitrary: s)
  case Nil
  then show ?case by simp
next
  case (Cons f fs)
  from Cons.prems(2) obtain inner where key: "map_of (b_index_fields (fst s)) f = Some inner"
    by (auto dest: weak_map_of_SomeI)
  from Cons.prems(3) field_values_Inr obtain vs where vs: "field_values f recs = Inr vs" by force
  from blocker_index_step [OF Cons.prems(1), of vs f] key obtain s1
    where s1: "blocker_index vs f s = Done s1" "bwf s1" "fst s1 = fst s"
    by (auto simp: dd_get_present)
  from Cons.IH [OF s1(2)] Cons.prems(2,3) s1(3) obtain s' where
    rest: "out_fold (index_field_step recs) fs s1 = Done s'" by auto
  from vs s1(1) have "index_field_step recs f s = Done s1" by (simp add: index_field_step_def)
  with rest show ?case by simp
qed

lemma field_readyD:
  "field_ready s f \<Longrightarrow> q \<in> set (b_index_predicates (fst s)) \<Longrightarrow> pr_field (h_preds (snd s) q) = f \<Longrightarrow>
   \<exists>x. pr_index (h_preds (snd s) q) = Some x \<and> searchable (h_idx (snd s) x)"
  by (cases s) (simp add: field_ready_def)

lemma bwf_shared_index:
  "bwf s \<Longrightarrow> q \<in> set (b_index_predicates (fst s)) \<Longrightarrow> q' \<in> set (b_index_predicates (fst s)) \<Longrightarrow>
   same_bucket (snd s) q q' \<Longrightarrow> pr_index (h_preds (snd s) q) = pr_index (h_preds (snd s) q')"
  by (cases s) (auto simp: bwf_def dest: index_sharingD(1))

lemma b_predicates_index:
  "blocker_index data f s = Done s' \<Longrightarrow> b_predicates (fst s') = b_predicates (fst s)"
  by (auto simp: blocker_index_def Let_def split: prod.splits sum.splits)

lemma b_predicates_index_all:
  "blocker_index_all recs s = Done s' \<Longrightarrow> b_predicates (fst s') = b_predicates (fst s)"
  unfolding blocker_index_all_def
  by (erule out_fold_Done_inv [where P = "\<lambda>t. b_predicates (fst t) = b_predicates (fst s)"])
     (auto split: sum.splits dest: b_predicates_index)

lemma bwf_unindex:
  assumes "bwf s"
  shows "bwf (out_state (blocker_unindex data f s))"
proof -
  obtain b h where s: "s = (b, h)" by fastforce
  with assms have wf: "bwf (b, h)" by simp
  show ?thesis
  proof (cases rule: blocker_unindex_cases [OF wf, of f data])
    case (1 ixs h1 h2)
    then show ?thesis using field_step_bwf [OF wf 1(1) 1(2) refl refl] by (simp add: s)
  next
    case (2 ixs h1 h2 e)
    then show ?thesis using bwf_mid [OF wf 2(1) 2(2) refl] by (simp add: s)
  qed
qed

lemma field_values_missing:
  "(rid, r) \<in> set recs \<Longrightarrow> r f = None \<Longrightarrow> field_values f recs = Inl (KeyError f)"
proof -
  assume "(rid, r) \<in> set recs" "r f = None"
  then have "map_err (\<lambda>(rid, r). dict_get r f f) recs = Inl (KeyError f)"
    by (induction recs) (auto simp: dict_get_def split: option.splits sum.splits)
  then show ?thesis by (simp add: field_values_def)
qed

section \<open>Properties\<close>

text \<open>
  C1. Blocking after \<open>indexAll\<close> cannot raise: from a Blocker built over predicates
  whose index attributes are unset, a run of \<open>indexAll\<close> that returns leaves every
  index predicate of every compound predicate with a finalised index, so a later
  \<open>__call__\<close> on any records yields all its pairs without an exception.
\<close>
theorem index_all_then_block:
  assumes "\<forall>q \<in> set (concat preds). has_index (h_preds h q) \<longrightarrow> pr_index (h_preds h q) = None"
    and "blocker_index_all recs (blocker_init h preds, h) = Done s'"
  shows "snd (blocker_call sim (snd s') (fst s') recs' target) = None"
  using index_all_call_safe [OF bwf_init [OF assms(1)] assms(2)] .

text \<open>
  C6. \<open>index(data, field)\<close> on a well-formed Blocker never raises, keeps the invariant,
  leaves every index predicate of \<open>field\<close> with a finalised index, and keeps the
  other fields' indexes finalised.
\<close>
theorem index_keeps_invariant:
  assumes "bwf s"
  shows "\<exists>s'. blocker_index data f s = Done s' \<and> bwf s' \<and> field_ready s' f
    \<and> (\<forall>g. g \<noteq> f \<longrightarrow> field_ready s g \<longrightarrow> field_ready s' g)"
  using blocker_index_step [OF assms] by blast

text \<open>
  C12. \<open>unindex(data, field)\<close> keeps the invariant whether it returns or raises part way
  (the heap it leaves is the one reached when the exception propagates).
\<close>
theorem unindex_keeps_invariant:
  assumes "bwf s"
  shows "bwf (out_state (blocker_unindex data f s))"
  using assms by (rule bwf_unindex)

text \<open>
  C15. When \<open>unindex(data, field)\<close> returns, the indexes of \<open>field\<close> are finalised and
  published again, so the field can be blocked on.
\<close>
theorem unindex_done_ready:
  assumes "bwf s" and "blocker_unindex data f s = Done s'"
  shows "field_ready s' f"
proof -
  obtain b h where s: "s = (b, h)" by fastforce
  with assms(1) have wf: "bwf (b, h)" by simp
  show ?thesis
  proof (cases rule: blocker_unindex_cases [OF wf, of f data])
    case (1 ixs h1 h2)
    then show ?thesis using field_step_ready(1) [OF wf 1(1) 1(2) refl refl] assms(2) by (simp add: s)
  next
    case (2 ixs h1 h2 e)
    then show ?thesis using assms(2) by (simp add: s)
  qed
qed

text \<open>
  C16. \<open>resetIndices\<close> unsets the index of every index predicate: a later \<open>__call__\<close>
  raises as soon as a compound predicate holding an index predicate meets a record
  with a non-empty value in that predicate's field.
\<close>
theorem reset_then_block_raises:
  assumes "fp \<in> set (b_predicates b)" "q \<in> set fp" "q \<in> set (b_index_predicates b)"
    and "has_index (h_preds h q)" "(rid, r) \<in> set recs"
    and "r (pr_field (h_preds h q)) = Some v" "v \<noteq> []"
  shows "snd (blocker_call sim (snd (reset_indices (b, h))) b recs target) \<noteq> None"
proof -
  let ?h = "snd (reset_indices (b, h))"
  have "atomic_keys sim (h_idx ?h) (h_preds ?h q) r = Inl (AttributeError ''index'')"
    using assms(3,4,6,7)
    by (auto simp: reset_indices_preds atomic_keys_def has_index_def split: pkind.splits)
  with assms(2) have "\<nexists>ks. compound_keys sim (h_idx ?h) (map (h_preds ?h) fp) r = Inr ks"
    by (intro compound_keys_Inl [of "h_preds ?h q"]) simp_all
  with assms(1,5) show ?thesis by (rule blocker_call_raises)
qed



text \<open>
  C10. \<open>indexAll\<close> returns on a well-formed Blocker when every record has every field
  that is a key of \<open>index_fields\<close> (the fields with index predicates, and any field
  an earlier \<open>index\<close> call inserted into the defaultdict): the only exception it can
  raise is the KeyError of a missing field.
\<close>
theorem index_all_returns:
  assumes "bwf s" and "\<forall>f \<in> fst ` set (b_index_fields (fst s)). \<forall>(rid, r) \<in> set recs. r f \<noteq> None"
  shows "\<exists>s'. blocker_index_all recs s = Done s'"
  using index_all_fold_Done [OF assms(1) _ , of "map fst (b_index_fields (fst s))" recs] assms(2)
  by (simp add: blocker_index_all_def index_field_step_def [abs_def])

text \<open>
  C17. The defaultdict read of \<open>index\<close> (line 71) breaks \<open>indexAll\<close>: on a
  well-formed Blocker, with records that have every field of \<open>index_fields\<close> but
  one of them lacks a field \<open>f\<close> without index predicates, \<open>indexAll\<close> returns;
  after \<open>index(data, f)\<close>, which inserts \<open>f\<close> into \<open>index_fields\<close>, it raises
  KeyError for \<open>f\<close>.
\<close>
theorem index_unknown_field_breaks_index_all:
  assumes wf: "bwf s" and f: "f \<notin> fst ` set (b_index_fields (fst s))"
    and fields: "\<forall>g \<in> fst ` set (b_index_fields (fst s)). \<forall>(rid, r) \<in> set recs. r g \<noteq> None"
    and miss: "(rid, r) \<in> set recs" "r f = None"
  shows "(\<exists>s1. blocker_index_all recs s = Done s1)
    \<and> (\<exists>s'. blocker_index data f s = Done s' \<and> (\<exists>s''. blocker_index_all recs s' = Raised (KeyError f) s''))"
proof -
  let ?al = "b_index_fields (fst s)"
  have before: "\<exists>s1. blocker_index_all recs s = Done s1"
    using index_all_fold_Done [OF wf _, of "map fst ?al" recs] fields
    by (simp add: blocker_index_all_def index_field_step_def [abs_def])
  obtain s' where s': "blocker_index data f s = Done s'" "bwf s'"
    "fst s' = (fst s)\<lparr>b_index_fields := snd (dd_get [] f ?al)\<rparr>"
    using blocker_index_step [OF wf, of data f] by blast
  have none: "map_of ?al f = None" using f by (simp add: map_of_eq_None_iff)
  then have keys: "map fst (b_index_fields (fst s')) = map fst ?al @ [f]"
    using s'(3) by (simp add: dd_get_absent)
  have sub: "set (map fst ?al) \<subseteq> fst ` set (b_index_fields (fst s'))"
    using arg_cong [OF keys, of set] by auto
  obtain s1 where s1: "out_fold (index_field_step recs) (map fst ?al) s' = Done s1"
    using index_all_fold_Done [OF s'(2) sub, of recs] fields by auto
  have "blocker_index_all recs s' = out_fold (index_field_step recs) (map fst ?al @ [f]) s'"
    by (simp add: blocker_index_all_def index_field_step_def [abs_def] keys [symmetric])
  also have "\<dots> = Raised (KeyError f) s1"
    by (simp add: out_fold_append s1 index_field_step_def field_values_missing [OF miss])
  finally show ?thesis using before s' by blast
qed

end
