(* ===== verification/Blocker_Output.thy ===== *)
theory Blocker_Output
  imports Blocker_Invariant
begin

text \<open>
  What \<open>Blocker.__call__\<close> emits and what \<open>index\<close> allocates: a block key is the raw key
  of a compound predicate followed by \<open>':' + str(i)\<close>, and the two parts can be read
  back; the generator's output, when it is not cut by an exception, equals a plain
  list comprehension over records, compound predicates and keys; \<open>index\<close> allocates
  one new canopy index per bucket whose predicates have none yet, and no other.
\<close>

section \<open>Reading a block key\<close>

text \<open>The ordinal after the last colon, and the key before it.\<close>
definition key_ordinal :: "string \<Rightarrow> nat" where
  "key_ordinal key = read_nat (rev (takeWhile (\<lambda>c. c \<noteq> CHR '':'') (rev key)))"

definition key_base :: "string \<Rightarrow> string" where
  "key_base key = rev (drop 1 (dropWhile (\<lambda>c. c \<noteq> CHR '':'') (rev key)))"

section \<open>A reference for \<open>__call__\<close>\<close>

text \<open>For every record, every compound predicate in order, every key it gives: the
  pair of the suffixed key and the record id.\<close>
definition blocker_call_ref :: "similarity \<Rightarrow> heap \<Rightarrow> blocker \<Rightarrow> ('r \<times> rec_dict) list \<Rightarrow> (string \<times> 'r) list" where
  "blocker_call_ref sim h b recs =
     [(k @ pred_id i, rid). (rid, r) \<leftarrow> recs, (i, fp) \<leftarrow> enumerate 0 (b_predicates b),
        k \<leftarrow> (case compound_keys sim (h_idx h) (map (h_preds h) fp) r of Inl e \<Rightarrow> [] | Inr ks \<Rightarrow> ks)]"

text \<open>The buckets of a field whose first predicate has no index yet.\<close>
definition unindexed_buckets :: "heap \<Rightarrow> (ptype \<times> pid list) list \<Rightarrow> nat" where
  "unindexed_buckets h inner = length (filter (\<lambda>(t, ps). pr_index (h_preds h (hd ps)) = None) inner)"

section \<open>Lemmas\<close>

lemma rev_pred_id: "rev (k @ pred_id i) = rev (str_nat i) @ CHR '':'' # rev k"
  by (simp add: pred_id_def)

lemma no_colon_str_nat: "\<forall>c \<in> set (rev (str_nat i)). c \<noteq> CHR '':''"
  using colon_notin_str_nat by auto

lemma key_ordinal_pred_id [simp]: "key_ordinal (k @ pred_id i) = i"
proof -
  have "takeWhile (\<lambda>c. c \<noteq> CHR '':'') (rev (str_nat i) @ CHR '':'' # rev k) = rev (str_nat i)"
    using no_colon_str_nat [of i] by (subst takeWhile_append2) auto
  then show ?thesis unfolding key_ordinal_def rev_pred_id by simp
qed

lemma key_base_pred_id [simp]: "key_base (k @ pred_id i) = k"
proof -
  have "dropWhile (\<lambda>c. c \<noteq> CHR '':'') (rev (str_nat i) @ CHR '':'' # rev k) = CHR '':'' # rev k"
    using no_colon_str_nat [of i] by (subst dropWhile_append2) auto
  then show ?thesis unfolding key_base_def rev_pred_id by simp
qed

lemma call_preds_mem:
  "(key, rid') \<in> set (fst (call_preds sim h rid r ps)) \<Longrightarrow>
   rid' = rid \<and> (\<exists>(i, fp) \<in> set ps. \<exists>ks k. compound_keys sim (h_idx h) (map (h_preds h) fp) r = Inr ks
     \<and> k \<in> set ks \<and> key = k @ pred_id i)"
  by (induction ps) (auto split: sum.splits prod.splits)

lemma call_records_mem:
  "(key, rid) \<in> set (fst (call_records sim h ps recs)) \<Longrightarrow>
   \<exists>r. (rid, r) \<in> set recs \<and> (key, rid) \<in> set (fst (call_preds sim h rid r ps))"
proof (induction recs)
  case (Cons x recs)
  obtain rid0 r0 where x: "x = (rid0, r0)" by fastforce
  show ?case
  proof (cases "call_preds sim h rid0 r0 ps")
    case (Pair o1 e)
    with Cons.prems x consider "(key, rid) \<in> set o1" | "(key, rid) \<in> set (fst (call_records sim h ps recs))"
      by (auto split: option.splits prod.splits)
    then show ?thesis
    proof cases
      case 1
      with Pair call_preds_rid [of key rid sim h rid0 r0 ps] have "rid = rid0" by simp
      with 1 Pair x show ?thesis by auto
    next
      case 2
      with Cons.IH show ?thesis by auto
    qed
  qed
qed simp

lemma call_preds_ref:
  "snd (call_preds sim h rid r ps) = None \<Longrightarrow>
   fst (call_preds sim h rid r ps) =
     concat (map (\<lambda>(i, fp). map (\<lambda>k. (k @ pred_id i, rid))
       (case compound_keys sim (h_idx h) (map (h_preds h) fp) r of Inl e \<Rightarrow> [] | Inr ks \<Rightarrow> ks)) ps)"
  by (induction ps) (auto split: sum.splits prod.splits)

lemma call_records_ref:
  "snd (call_records sim h ps recs) = None \<Longrightarrow>
   fst (call_records sim h ps recs) =
     concat (map (\<lambda>(rid, r). concat (map (\<lambda>(i, fp). map (\<lambda>k. (k @ pred_id i, rid))
       (case compound_keys sim (h_idx h) (map (h_preds h) fp) r of Inl e \<Rightarrow> [] | Inr ks \<Rightarrow> ks)) ps)) recs)"
proof (induction recs)
  case (Cons x recs)
  obtain rid0 r0 where x: "x = (rid0, r0)" by fastforce
  from Cons.prems obtain o1 where c: "call_preds sim h rid0 r0 ps = (o1, None)"
    by (cases "call_preds sim h rid0 r0 ps") (auto simp: x split: option.splits prod.splits)
  with Cons.prems x have "snd (call_records sim h ps recs) = None"
    by (auto split: prod.splits)
  with Cons.IH call_preds_ref [of sim h rid0 r0 ps] c x show ?case
    by (auto split: prod.splits)
qed simp

lemma extract_indices_next:
  "extract_indices inner h = Inr (ixs, h1) \<Longrightarrow> h_next h1 = h_next h + unindexed_buckets h inner"
proof (induction inner h arbitrary: ixs h1 rule: extract_indices.induct)
  case (1 h)
  then show ?case by (simp add: unindexed_buckets_def)
next
  case (2 t ps rest h)
  obtain q qs k thr where ps: "ps = q # qs" and kd: "pr_kind (h_preds h q) = Canopy k thr"
    using "2.prems" by (auto split: list.splits pkind.splits)
  obtain x h0 where a: "(case pr_index (h_preds h q) of Some x \<Rightarrow> (x, h) | None \<Rightarrow> idx_alloc h) = (x, h0)"
    by fastforce
  with "2.prems" ps kd obtain ixs' where r: "extract_indices rest h0 = Inr (ixs', h1)"
    by (auto split: sum.splits prod.splits)
  have p: "h_preds h0 = h_preds h"
    and n: "h_next h0 = h_next h + (if pr_index (h_preds h q) = None then 1 else 0)"
    using a by (auto simp: idx_alloc_def split: option.splits)
  from "2.IH" [OF ps kd refl a [symmetric] r] have "h_next h1 = h_next h0 + unindexed_buckets h0 rest" .
  with p n ps show ?case by (simp add: unindexed_buckets_def)
qed

lemma blocker_index_Done:
  assumes "blocker_index data f s = Done s'"
  obtains ixs h1 where "extract_indices (field_buckets (fst s) f) (snd s) = Inr (ixs, h1)"
    "s' = ((fst s)\<lparr>b_index_fields := snd (dd_get [] f (b_index_fields (fst s)))\<rparr>,
           publish (field_buckets (fst s) f) ixs (fold (add_doc ixs) data h1))"
proof -
  obtain b h where s: "s = (b, h)" by fastforce
  obtain fs' where dd: "dd_get [] f (b_index_fields b) = (field_buckets b f, fs')"
    using field_buckets_dd_get [of f b] by (metis prod.collapse)
  show ?thesis
  proof (cases "extract_indices (field_buckets b f) h")
    case (Inl e)
    with assms s dd show ?thesis by (simp add: blocker_index_def)
  next
    case (Inr r)
    then obtain ixs h1 where r: "extract_indices (field_buckets b f) h = Inr (ixs, h1)" by (cases r) auto
    with assms s dd have "s' = (b\<lparr>b_index_fields := fs'\<rparr>, publish (field_buckets b f) ixs (fold (add_doc ixs) data h1))"
      by (simp add: blocker_index_def)
    with r s dd that show ?thesis by simp
  qed
qed

lemma h_next_fold_add_doc [simp]: "h_next (fold (add_doc ixs) data h) = h_next h"
  using only_idx_fold_add_doc [of ixs h data] by (simp add: only_idx_def)

section \<open>Properties\<close>

text \<open>
  C21. A block key can be read back: the key before the last colon and the ordinal
  after it are the raw key and the compound predicate's ordinal that
  \<open>Blocker.__call__\<close> joined (blocking.py lines 55-57).
\<close>
theorem pred_id_roundtrip: "key_base (k @ pred_id i) = k \<and> key_ordinal (k @ pred_id i) = i"
  by simp

text \<open>
  C4. Everything \<open>Blocker.__call__\<close> yields, also before an exception ends it, is a
  pair of a block key and the id of one of the records given, and the key reads back
  as a key that the compound predicate named by its ordinal gives that record,
  followed by \<open>':'\<close> and that ordinal.
\<close>
theorem blocker_call_key_shape:
  assumes "(key, rid) \<in> set (fst (blocker_call sim h b recs target))"
  shows "\<exists>r ks. (rid, r) \<in> set recs \<and> key_ordinal key < length (b_predicates b)
    \<and> compound_keys sim (h_idx h) (map (h_preds h) (b_predicates b ! key_ordinal key)) r = Inr ks
    \<and> key_base key \<in> set ks \<and> key = key_base key @ pred_id (key_ordinal key)"
proof -
  from call_records_mem [OF assms [unfolded blocker_call_def]] obtain r
    where r: "(rid, r) \<in> set recs" "(key, rid) \<in> set (fst (call_preds sim h rid r (enumerate 0 (b_predicates b))))"
    by blast
  from call_preds_mem [OF r(2)] obtain i fp ks k where
    "(i, fp) \<in> set (enumerate 0 (b_predicates b))" "compound_keys sim (h_idx h) (map (h_preds h) fp) r = Inr ks"
    "k \<in> set ks" "key = k @ pred_id i" by blast
  then have "i < length (b_predicates b)" "fp = b_predicates b ! i"
    "compound_keys sim (h_idx h) (map (h_preds h) fp) r = Inr ks" "k \<in> set ks" "key = k @ pred_id i"
    by (auto simp: in_set_enumerate_eq)
  with r(1) show ?thesis by auto
qed

text \<open>
  C5. When \<open>Blocker.__call__\<close> runs to its end, its output is the list comprehension
  over the records, the compound predicates in order with their ordinals, and the
  keys each gives, every key suffixed with \<open>':'\<close> and the ordinal.
\<close>
theorem blocker_call_equiv:
  assumes "snd (blocker_call sim h b recs target) = None"
  shows "fst (blocker_call sim h b recs target) = blocker_call_ref sim h b recs"
  using call_records_ref [OF assms [unfolded blocker_call_def]]
  by (simp add: blocker_call_def blocker_call_ref_def)

text \<open>
  C11. \<open>index(data, field)\<close> allocates exactly one new canopy index for each bucket of
  the field whose predicates have no index yet (\<open>initIndex\<close> in \<open>extractIndices\<close>)
  and none otherwise, so at most one per bucket.
\<close>
theorem index_alloc_bound:
  assumes "blocker_index data f s = Done s'"
  shows "h_next (snd s') = h_next (snd s) + unindexed_buckets (snd s) (field_buckets (fst s) f)
    \<and> h_next (snd s') \<le> h_next (snd s) + length (field_buckets (fst s) f)"
proof -
  from assms obtain ixs h1 where
    ex: "extract_indices (field_buckets (fst s) f) (snd s) = Inr (ixs, h1)"
    and s': "s' = ((fst s)\<lparr>b_index_fields := snd (dd_get [] f (b_index_fields (fst s)))\<rparr>,
           publish (field_buckets (fst s) f) ixs (fold (add_doc ixs) data h1))"
    by (rule blocker_index_Done)
  have "unindexed_buckets (snd s) (field_buckets (fst s) f) \<le> length (field_buckets (fst s) f)"
    by (simp add: unindexed_buckets_def)
  with extract_indices_next [OF ex] s' show ?thesis by simp
qed

end
