(* ===== verification/Blocker_Lifecycle.thy ===== *)
theory Blocker_Lifecycle
  imports Blocker_Safety
begin

text \<open>
  The life of a Blocker object: \<open>__init__\<close>, then any sequence of calls of its
  mutating methods \<open>index\<close>, \<open>unindex\<close>, \<open>indexAll\<close> and \<open>resetIndices\<close>, each of
  which may raise; a caller that catches the exception goes on with the object as the
  method left it. \<open>__call__\<close> only reads the state. The operations are a datatype,
  \<open>blocker_exec\<close> dispatches them to the methods of blocking.py, and the states a
  program can reach form the inductive set \<open>reachable\<close>.
\<close>

text \<open>The predicates given to \<open>__init__\<close> carry no index yet.\<close>
definition fresh_preds :: "heap \<Rightarrow> pid list list \<Rightarrow> bool" where
  "fresh_preds h preds \<longleftrightarrow>
     filter (\<lambda>q. has_index (h_preds h q) \<and> pr_index (h_preds h q) \<noteq> None) (concat preds) = []"

text \<open>A method call on a Blocker; record ids are numbers, as in the tests.\<close>
datatype blocker_op =
    Index "string list" field
  | Unindex "string list" field
  | IndexAll "(nat \<times> rec_dict) list"
  | ResetIndices

primrec blocker_exec :: "blocker_op \<Rightarrow> bstate \<Rightarrow> bstate outcome" where
  "blocker_exec (Index data f) s = blocker_index data f s"
| "blocker_exec (Unindex data f) s = blocker_unindex data f s"
| "blocker_exec (IndexAll recs) s = blocker_index_all recs s"
| "blocker_exec ResetIndices s = Done (reset_indices s)"

text \<open>A sequence of calls, each exception caught by the caller.\<close>
definition blocker_run :: "blocker_op list \<Rightarrow> bstate \<Rightarrow> bstate" where
  "blocker_run ops s = fold (\<lambda>op s. out_state (blocker_exec op s)) ops s"

inductive reachable :: "bstate \<Rightarrow> bool" where
  init: "fresh_preds h preds \<Longrightarrow> reachable (blocker_init h preds, h)"
| step: "reachable s \<Longrightarrow> reachable (out_state (blocker_exec op s))"

section \<open>Lemmas\<close>

lemma fresh_preds_iff:
  "fresh_preds h preds \<longleftrightarrow> (\<forall>q \<in> set (concat preds). has_index (h_preds h q) \<longrightarrow> pr_index (h_preds h q) = None)"
  unfolding fresh_preds_def filter_empty_conv by auto

lemma reachable_run: "reachable s \<Longrightarrow> reachable (blocker_run ops s)"
  unfolding blocker_run_def
proof (induction ops arbitrary: s)
  case (Cons op ops)
  from Cons.IH [OF reachable.step [OF Cons.prems]] show ?case by simp
qed simp

lemma bwf_reset: "bwf s \<Longrightarrow> bwf (reset_indices s)"
proof -
  assume wf: "bwf s"
  obtain b h where s: "s = (b, h)" by fastforce
  let ?h = "fold (set_pred_index None) (b_index_predicates b) h"
  have shape: "same_shape h ?h" by simp
  have ip: "pr_index (h_preds ?h q) = None" if "q \<in> set (b_index_predicates b)" for q
    using that by (simp add: fold_set_pred_index)
  from wf have "fields_wf (b, ?h)"
    by (auto simp: s bwf_def fields_wf_def same_shape_in_bucket [OF shape])
  moreover have "registry_wf (b, ?h) = registry_wf (b, h)"
    by (simp add: registry_wf_def same_shape_has_index [OF shape])
  moreover have "index_sharing (b, ?h)"
    by (rule index_sharingI) (simp_all add: ip)
  ultimately show ?thesis using wf by (simp add: s bwf_def reset_indices_def)
qed

lemma bwf_index: "bwf s \<Longrightarrow> bwf (out_state (blocker_index data f s))"
  using blocker_index_step [of s data f] by auto

lemma bwf_index_all: "bwf s \<Longrightarrow> bwf (out_state (blocker_index_all recs s))"
  unfolding blocker_index_all_def
  by (erule out_fold_state_inv) (auto simp: bwf_index split: sum.splits)

lemma bwf_exec: "bwf s \<Longrightarrow> bwf (out_state (blocker_exec op s))"
  by (cases op) (simp_all add: bwf_index bwf_unindex bwf_reset bwf_index_all)

lemma reachable_bwf: "reachable s \<Longrightarrow> bwf s"
proof (induction rule: reachable.induct)
  case (init h preds)
  then show ?case by (intro bwf_init) (simp only: fresh_preds_iff)
qed (rule bwf_exec)

section \<open>Properties\<close>

text \<open>
  C7. Whatever sequence of \<open>index\<close>, \<open>unindex\<close>, \<open>indexAll\<close> and \<open>resetIndices\<close>
  calls a program makes on a Blocker built over predicates without indexes, catching
  the exceptions they raise, the Blocker stays well formed.
\<close>
theorem run_keeps_invariant:
  assumes "fresh_preds h preds"
  shows "bwf (blocker_run ops (blocker_init h preds, h))"
  using assms by (intro reachable_bwf reachable_run reachable.init)

text \<open>
  C8. \<open>indexAll\<close> restores blocking after any history: whatever calls were made on the
  Blocker before, also ones that raised, an \<open>indexAll\<close> that returns leaves a Blocker
  whose \<open>__call__\<close> cannot raise.
\<close>
theorem run_index_all_then_block:
  assumes "fresh_preds h preds"
    and "blocker_index_all recs (blocker_run ops (blocker_init h preds, h)) = Done s'"
  shows "snd (blocker_call sim (snd s') (fst s') recs' target) = None"
  using index_all_call_safe [OF reachable_bwf [OF reachable_run [OF reachable.init [OF assms(1)]]] assms(2)] .

end
