(* ===== verification/Blocker_Generator.thy ===== *)
theory Blocker_Generator
  imports Blocker
begin

text \<open>
  \<open>Blocker.__call__\<close> is a generator: nothing runs until the consumer asks for the
  next pair, and the body then runs to the next \<open>yield\<close>. The model makes the
  generator's frame explicit: the records still to be enumerated, the record in
  progress, the compound predicates still to be applied to it, and the pairs of the
  current predicate still to be yielded. One step of \<open>gen_step\<close> is one unit of the
  body's work, possibly producing an event: a yielded pair, or the progress line that
  \<open>logger.info\<close> writes every 10000 records (lines 59-62). \<open>gen_run\<close> drives the
  generator to its end, as \<open>for key in blocker(records)\<close> does; its termination
  proof is the lexicographic measure \<open>gen_order\<close> on the frame.
\<close>

section \<open>The generator's frame and its step\<close>

record 'r gen =
  g_recs :: "(nat \<times> 'r \<times> rec_dict) list"
  g_cur :: "(nat \<times> 'r \<times> rec_dict) option"
  g_preds :: "(nat \<times> pid list) list"
  g_pending :: "(string \<times> 'r) list"

datatype 'r gen_event = Yield string 'r | Progress nat

datatype 'r gen_result = Silent "'r gen" | Emit "'r gen_event" "'r gen" | Fail py_error | Stop

text \<open>The frame when the first \<open>next()\<close> enters the body: \<open>enumerate(records)\<close>.\<close>
definition gen_init :: "('r \<times> rec_dict) list \<Rightarrow> 'r gen" where
  "gen_init records = \<lparr>g_recs = enumerate 0 records, g_cur = None, g_preds = [], g_pending = []\<rparr>"

text \<open>\<open>if i and i % 10000 == 0\<close>, after the predicates of record \<open>i\<close>.\<close>
definition logs_at :: "nat \<Rightarrow> bool" where
  "logs_at i \<longleftrightarrow> i \<noteq> 0 \<and> i mod 10000 = 0"

text \<open>
  One unit of work of the body of \<open>__call__\<close> (lines 50-62) over the enumerated
  predicates \<open>ps\<close> (lines 46-48): yield the next pending pair; or apply the next
  compound predicate to the current record (raising what it raises); or finish the
  record, logging progress; or take the next record; or stop.
\<close>
definition gen_step :: "similarity \<Rightarrow> heap \<Rightarrow> (nat \<times> pid list) list \<Rightarrow> 'r gen \<Rightarrow> 'r gen_result" where
  "gen_step sim h ps g =
     (case g_pending g of
        (k, rid) # rest \<Rightarrow> Emit (Yield k rid) (g\<lparr>g_pending := rest\<rparr>)
      | [] \<Rightarrow>
          (case g_cur g of
             Some (i, rid, r) \<Rightarrow>
               (case g_preds g of
                  (j, fp) # rest \<Rightarrow>
                    (case compound_keys sim (h_idx h) (map (h_preds h) fp) r of
                       Inl e \<Rightarrow> Fail e
                     | Inr ks \<Rightarrow> Silent (g\<lparr>g_preds := rest, g_pending := map (\<lambda>k. (k @ pred_id j, rid)) ks\<rparr>))
                | [] \<Rightarrow>
                    (if logs_at i then Emit (Progress i) (g\<lparr>g_cur := None\<rparr>) else Silent (g\<lparr>g_cur := None\<rparr>)))
           | None \<Rightarrow>
               (case g_recs g of
                  (i, rid, r) # rest \<Rightarrow> Silent (g\<lparr>g_recs := rest, g_cur := Some (i, rid, r), g_preds := ps\<rparr>)
                | [] \<Rightarrow> Stop)))"

text \<open>The frame shrinks: fewer records left, or the same with the current record done,
  or fewer predicates left for it, or fewer pending pairs.\<close>
definition gen_order :: "('r gen \<times> 'r gen) set" where
  "gen_order = measures [\<lambda>g. length (g_recs g), \<lambda>g. if g_cur g = None then 0 else 1,
     \<lambda>g. length (g_preds g), \<lambda>g. length (g_pending g)]"

text \<open>The step relation of the generator: a step that does not end it.\<close>
definition gen_rel :: "similarity \<Rightarrow> heap \<Rightarrow> (nat \<times> pid list) list \<Rightarrow> ('r gen \<times> 'r gen) set" where
  "gen_rel sim h ps = {(g', g). gen_step sim h ps g = Silent g' \<or> (\<exists>ev. gen_step sim h ps g = Emit ev g')}"

lemma gen_step_order:
  "gen_step sim h ps g = Silent g' \<or> gen_step sim h ps g = Emit ev g' \<Longrightarrow> (g', g) \<in> gen_order"
  by (auto simp: gen_step_def gen_order_def split: list.splits option.splits sum.splits prod.splits if_splits)

lemma wf_gen_order: "wf gen_order"
  by (simp add: gen_order_def)

function gen_run :: "similarity \<Rightarrow> heap \<Rightarrow> (nat \<times> pid list) list \<Rightarrow> 'r gen \<Rightarrow> 'r gen_event list \<times> py_error option" where
  "gen_run sim h ps g =
     (case gen_step sim h ps g of
        Stop \<Rightarrow> ([], None)
      | Fail e \<Rightarrow> ([], Some e)
      | Silent g' \<Rightarrow> gen_run sim h ps g'
      | Emit ev g' \<Rightarrow> (let (evs, e) = gen_run sim h ps g' in (ev # evs, e)))"
  by pat_completeness auto
termination
proof (relation "inv_image gen_order (\<lambda>(sim, h, ps, g). g)")
  show "wf (inv_image gen_order (\<lambda>(sim, h, ps, g). g))" by (simp add: wf_gen_order)
qed (auto intro: gen_step_order)

declare gen_run.simps [simp del]

text \<open>The pairs and the progress lines among the events.\<close>
fun gen_yields :: "'r gen_event list \<Rightarrow> (string \<times> 'r) list" where
  "gen_yields [] = []"
| "gen_yields (Yield k rid # evs) = (k, rid) # gen_yields evs"
| "gen_yields (Progress i # evs) = gen_yields evs"

fun gen_progress :: "'r gen_event list \<Rightarrow> nat list" where
  "gen_progress [] = []"
| "gen_progress (Yield k rid # evs) = gen_progress evs"
| "gen_progress (Progress i # evs) = i # gen_progress evs"

text \<open>The events record by record: the pairs of the record, then its progress line.\<close>
fun gen_ref :: "similarity \<Rightarrow> heap \<Rightarrow> (nat \<times> pid list) list \<Rightarrow> (nat \<times> 'r \<times> rec_dict) list
    \<Rightarrow> 'r gen_event list \<times> py_error option" where
  "gen_ref sim h ps [] = ([], None)"
| "gen_ref sim h ps ((i, rid, r) # rs) =
     (case call_preds sim h rid r ps of
        (out, Some e) \<Rightarrow> (map (\<lambda>(k, x). Yield k x) out, Some e)
      | (out, None) \<Rightarrow> (case gen_ref sim h ps rs of (evs, e) \<Rightarrow>
          (map (\<lambda>(k, x). Yield k x) out @ (if logs_at i then [Progress i] else []) @ evs, e)))"

section \<open>Lemmas\<close>

lemma gen_yields_append [simp]: "gen_yields (evs @ evs') = gen_yields evs @ gen_yields evs'"
  by (induction evs rule: gen_yields.induct) simp_all

lemma gen_progress_append [simp]: "gen_progress (evs @ evs') = gen_progress evs @ gen_progress evs'"
  by (induction evs rule: gen_progress.induct) simp_all

lemma gen_yields_map [simp]: "gen_yields (map (\<lambda>(k, x). Yield k x) out) = out"
  by (induction out) auto

lemma gen_progress_map [simp]: "gen_progress (map (\<lambda>(k, x). Yield k x) out) = []"
  by (induction out) auto

lemma gen_run_pending:
  "gen_run sim h ps g =
     (case gen_run sim h ps (g\<lparr>g_pending := []\<rparr>) of (evs, e) \<Rightarrow> (map (\<lambda>(k, x). Yield k x) (g_pending g) @ evs, e))"
proof (induction "g_pending g" arbitrary: g)
  case Nil
  then have eq: "g\<lparr>g_pending := []\<rparr> = g" by (cases g) simp
  show ?case unfolding eq using Nil.hyps [symmetric] by (simp add: case_prod_beta)
next
  case (Cons p rest)
  obtain k rid where p: "p = (k, rid)" by fastforce
  have "gen_run sim h ps g = (case gen_run sim h ps (g\<lparr>g_pending := rest\<rparr>) of (evs, e) \<Rightarrow> (Yield k rid # evs, e))"
    using Cons.hyps(2) [symmetric] by (subst gen_run.simps) (simp add: gen_step_def p)
  with Cons.hyps(1) [of "g\<lparr>g_pending := rest\<rparr>"] Cons.hyps(2) [symmetric] show ?case
    by (simp add: p case_prod_beta)
qed

lemma gen_run_preds:
  assumes "g_pending g = []" "g_cur g = Some (i, rid, r)"
  shows "gen_run sim h ps g =
     (case call_preds sim h rid r (g_preds g) of
        (out, Some e) \<Rightarrow> (map (\<lambda>(k, x). Yield k x) out, Some e)
      | (out, None) \<Rightarrow> (case gen_run sim h ps (g\<lparr>g_cur := None, g_preds := []\<rparr>) of (evs, e) \<Rightarrow>
          (map (\<lambda>(k, x). Yield k x) out @ (if logs_at i then [Progress i] else []) @ evs, e)))"
  using assms
proof (induction "g_preds g" arbitrary: g)
  case Nil
  then have eq: "g\<lparr>g_cur := None, g_preds := []\<rparr> = g\<lparr>g_cur := None\<rparr>" by (cases g) simp
  show ?case unfolding eq using Nil
    by (subst gen_run.simps) (simp add: gen_step_def case_prod_beta)
next
  case (Cons q rest)
  obtain j fp where q: "q = (j, fp)" by fastforce
  show ?case
  proof (cases "compound_keys sim (h_idx h) (map (h_preds h) fp) r")
    case (Inl e)
    with Cons.prems Cons.hyps(2) [symmetric] show ?thesis
      by (subst gen_run.simps) (simp add: gen_step_def q)
  next
    case (Inr ks)
    let ?g = "g\<lparr>g_preds := rest, g_pending := map (\<lambda>k. (k @ pred_id j, rid)) ks\<rparr>"
    have "gen_run sim h ps g = gen_run sim h ps ?g"
      using Cons.prems Cons.hyps(2) [symmetric] Inr by (subst gen_run.simps) (simp add: gen_step_def q)
    also have "\<dots> = (case gen_run sim h ps (?g\<lparr>g_pending := []\<rparr>) of (evs, e) \<Rightarrow>
        (map (\<lambda>(k, x). Yield k x) (map (\<lambda>k. (k @ pred_id j, rid)) ks) @ evs, e))"
      by (subst gen_run_pending) simp
    moreover have eq: "?g\<lparr>g_pending := []\<rparr>\<lparr>g_cur := None, g_preds := []\<rparr> = g\<lparr>g_cur := None, g_preds := []\<rparr>"
      using Cons.prems(1) by (cases g) simp
    moreover have "gen_run sim h ps (?g\<lparr>g_pending := []\<rparr>) =
     (case call_preds sim h rid r rest of
        (out, Some e) \<Rightarrow> (map (\<lambda>(k, x). Yield k x) out, Some e)
      | (out, None) \<Rightarrow> (case gen_run sim h ps (g\<lparr>g_cur := None, g_preds := []\<rparr>) of (evs, e) \<Rightarrow>
          (map (\<lambda>(k, x). Yield k x) out @ (if logs_at i then [Progress i] else []) @ evs, e)))"
      using Cons.hyps(1) [of "?g\<lparr>g_pending := []\<rparr>"] Cons.prems unfolding eq by (simp add: Let_def)
    ultimately show ?thesis
      using Cons.prems Cons.hyps(2) [symmetric] Inr
      by (auto simp: q case_prod_beta split: option.splits prod.splits)
  qed
qed

lemma gen_run_recs:
  "g_pending g = [] \<Longrightarrow> g_cur g = None \<Longrightarrow> gen_run sim h ps g = gen_ref sim h ps (g_recs g)"
proof (induction "g_recs g" arbitrary: g)
  case Nil
  then show ?case by (subst gen_run.simps) (simp add: gen_step_def)
next
  case (Cons x rest)
  obtain i rid r where x: "x = (i, rid, r)" by (cases x) auto
  let ?g1 = "g\<lparr>g_recs := rest, g_cur := Some (i, rid, r), g_preds := ps\<rparr>"
  have "gen_run sim h ps g = gen_run sim h ps ?g1"
    using Cons.prems Cons.hyps(2) [symmetric] by (subst gen_run.simps) (simp add: gen_step_def x)
  also have "\<dots> = (case call_preds sim h rid r ps of
        (out, Some e) \<Rightarrow> (map (\<lambda>(k, x). Yield k x) out, Some e)
      | (out, None) \<Rightarrow> (case gen_run sim h ps (?g1\<lparr>g_cur := None, g_preds := []\<rparr>) of (evs, e) \<Rightarrow>
          (map (\<lambda>(k, x). Yield k x) out @ (if logs_at i then [Progress i] else []) @ evs, e)))"
    using Cons.prems by (subst gen_run_preds) simp_all
  also have "gen_run sim h ps (?g1\<lparr>g_cur := None, g_preds := []\<rparr>) = gen_ref sim h ps rest"
    using Cons.hyps(1) [of "?g1\<lparr>g_cur := None, g_preds := []\<rparr>"] Cons.prems by simp
  finally show ?case using Cons.hyps(2) [symmetric] by (simp add: x)
qed

lemma gen_run_init: "gen_run sim h ps (gen_init records) = gen_ref sim h ps (enumerate 0 records)"
  by (simp add: gen_init_def gen_run_recs)

lemma gen_ref_call_records:
  "gen_yields (fst (gen_ref sim h ps (enumerate n recs))) = fst (call_records sim h ps recs)
   \<and> snd (gen_ref sim h ps (enumerate n recs)) = snd (call_records sim h ps recs)"
proof (induction recs arbitrary: n)
  case (Cons x recs)
  obtain rid r where x: "x = (rid, r)" by fastforce
  from Cons.IH [of "Suc n"] show ?case
    by (auto simp: x case_prod_beta split: option.splits prod.splits)
qed simp

lemma gen_ref_progress:
  "snd (gen_ref sim h ps (enumerate n recs)) = None \<Longrightarrow>
   gen_progress (fst (gen_ref sim h ps (enumerate n recs))) = filter logs_at [n..<n + length recs]"
proof (induction recs arbitrary: n)
  case (Cons x recs)
  obtain rid r where x: "x = (rid, r)" by fastforce
  have "[n..<n + length (x # recs)] = n # [Suc n..<Suc n + length recs]"
    by (simp add: upt_rec)
  with Cons.IH [of "Suc n"] Cons.prems show ?case
    by (auto simp: x case_prod_beta split: option.splits prod.splits)
qed simp

section \<open>Properties\<close>

text \<open>
  The generator of \<open>Blocker.__call__\<close> always ends: its step relation is
  well-founded, so every sequence of \<open>next()\<close> calls reaches \<open>StopIteration\<close> or an
  exception after finitely many steps, whatever the predicates and records.
\<close>
theorem gen_terminates: "wf (gen_rel sim h ps)"
proof (rule wf_subset [OF wf_gen_order])
  show "gen_rel sim h ps \<subseteq> gen_order"
    by (auto simp: gen_rel_def intro: gen_step_order)
qed

text \<open>
  Driving the generator of \<open>__call__\<close> step by step to its end yields exactly the
  pairs of \<open>blocker_call\<close>, in the same order, and ends with the same exception, if
  any: the lazy generator and the eager model of the output agree.
\<close>
theorem gen_run_equiv:
  "gen_yields (fst (gen_run sim h (enumerate 0 (b_predicates b)) (gen_init recs))) = fst (blocker_call sim h b recs target)
   \<and> snd (gen_run sim h (enumerate 0 (b_predicates b)) (gen_init recs)) = snd (blocker_call sim h b recs target)"
  using gen_ref_call_records [of sim h "enumerate 0 (b_predicates b)" 0 recs]
  by (simp add: gen_run_init blocker_call_def)

text \<open>
  C9. The progress counter of \<open>__call__\<close> (lines 59-62): when blocking runs to its
  end, it logs once for each record whose 0-based position is a non-zero multiple of
  10000, in order, and at no other time.
\<close>
theorem gen_progress_log:
  assumes "snd (blocker_call sim h b recs target) = None"
  shows "gen_progress (fst (gen_run sim h (enumerate 0 (b_predicates b)) (gen_init recs)))
    = filter (\<lambda>i. 0 < i \<and> i mod 10000 = 0) [0..<length recs]"
proof -
  have "snd (gen_ref sim h (enumerate 0 (b_predicates b)) (enumerate 0 recs)) = None"
    using gen_ref_call_records [of sim h "enumerate 0 (b_predicates b)" 0 recs] assms
    by (simp add: blocker_call_def)
  from gen_ref_progress [OF this] show ?thesis
    by (simp add: gen_run_init logs_at_def [abs_def] gr0_conv_Suc not_gr0)
qed

end
