(* ===== verification/Fixtures.thy ===== *)
theory Fixtures
  imports Prelude
begin

text \<open>The record fixture shared by the tests of src/test/test_dedupe.py.\<close>

text \<open>\<open>DATA\<close>, test_dedupe.py lines 10-20: record id to record.\<close>
definition test_DATA :: "(nat \<times> rec_dict) list" where
  "test_DATA =
     [(100, [''name'' \<mapsto> ''Bob'', ''age'' \<mapsto> ''50'']),
      (105, [''name'' \<mapsto> ''Charlie'', ''age'' \<mapsto> ''75'']),
      (110, [''name'' \<mapsto> ''Meredith'', ''age'' \<mapsto> ''40'']),
      (115, [''name'' \<mapsto> ''Sue'', ''age'' \<mapsto> ''10'']),
      (120, [''name'' \<mapsto> ''Jimmy'', ''age'' \<mapsto> ''20'']),
      (125, [''name'' \<mapsto> ''Jimbo'', ''age'' \<mapsto> ''21'']),
      (130, [''name'' \<mapsto> ''Willy'', ''age'' \<mapsto> ''35'']),
      (135, [''name'' \<mapsto> ''William'', ''age'' \<mapsto> ''35'']),
      (140, [''name'' \<mapsto> ''Martha'', ''age'' \<mapsto> ''19'']),
      (145, [''name'' \<mapsto> ''Kyle'', ''age'' \<mapsto> ''27''])]"

end
