(* ===== verification/Examples.thy ===== *)
theory Examples
  imports Blocker_Safety Blocker_Output Blocker_Lifecycle Blocker_Generator Fixtures
begin

text \<open>
  Concrete inputs: the \<open>DATA\<close> fixture of src/test/test_dedupe.py, a heap of blocking
  predicates over its fields, and the witnesses that apply the Blocker theorems to them.
  They include a history of method calls, the first steps of the generator, and the
  concrete defects of blocking.py. Every value here is evaluated by the kernel (\<open>code_simp\<close>).
\<close>

section \<open>Fixtures\<close>

text \<open>Predicate objects 0-4: whole name, first three characters of the name, common
  integer of the age, and two TF-IDF canopy predicates on the name that share one index.\<close>
definition ex_pred :: "pid \<Rightarrow> pred" where
  "ex_pred q =
     (if q = 0 then \<lparr>pr_field = ''name'', pr_kind = Simple WholeField, pr_index = None\<rparr>
      else if q = 1 then \<lparr>pr_field = ''name'', pr_kind = Simple (FirstChars 3), pr_index = None\<rparr>
      else if q = 2 then \<lparr>pr_field = ''age'', pr_kind = Simple CommonInteger, pr_index = None\<rparr>
      else if q = 3 then \<lparr>pr_field = ''name'', pr_kind = Canopy TfidfText (3/5), pr_index = None\<rparr>
      else \<lparr>pr_field = ''name'', pr_kind = Canopy TfidfText (4/5), pr_index = None\<rparr>)"

definition ex_heap :: heap where
  "ex_heap = \<lparr>h_preds = ex_pred, h_idx = (\<lambda>_. canopy_new), h_next = 0\<rparr>"

text \<open>Exact match as the similarity of a canopy query.\<close>
definition ex_sim :: similarity where
  "ex_sim q d = (if q = d then 1 else 0)"

definition ex_simple_blocker :: blocker where
  "ex_simple_blocker = blocker_init ex_heap [[0], [1], [1, 2]]"

definition ex_simple_out :: "(string \<times> nat) list" where
  "ex_simple_out =
     [(''Bob:0'', 100), (''Bob:1'', 100), (''Bob:50:2'', 100),
      (''Charlie:0'', 105), (''Cha:1'', 105), (''Cha:75:2'', 105),
      (''Meredith:0'', 110), (''Mer:1'', 110), (''Mer:40:2'', 110),
      (''Sue:0'', 115), (''Sue:1'', 115), (''Sue:10:2'', 115),
      (''Jimmy:0'', 120), (''Jim:1'', 120), (''Jim:20:2'', 120),
      (''Jimbo:0'', 125), (''Jim:1'', 125), (''Jim:21:2'', 125),
      (''Willy:0'', 130), (''Wil:1'', 130), (''Wil:35:2'', 130),
      (''William:0'', 135), (''Wil:1'', 135), (''Wil:35:2'', 135),
      (''Martha:0'', 140), (''Mar:1'', 140), (''Mar:19:2'', 140),
      (''Kyle:0'', 145), (''Kyl:1'', 145), (''Kyl:27:2'', 145)]"

text \<open>A Blocker over the whole-name predicate, the canopy predicate with threshold 3/5 on
  the name, and the compound of the second canopy predicate with the common integer of
  the age; the first three records of \<open>DATA\<close>.\<close>
definition ex_canopy_preds :: "pid list list" where
  "ex_canopy_preds = [[0], [3], [4, 2]]"

definition ex_canopy_state :: bstate where
  "ex_canopy_state = (blocker_init ex_heap ex_canopy_preds, ex_heap)"

definition ex_recs :: "(nat \<times> rec_dict) list" where
  "ex_recs = take 3 test_DATA"

text \<open>A history of calls on that Blocker: \<open>index\<close> of the name field, \<open>resetIndices\<close>,
  an \<open>unindex\<close> that raises KeyError (the fresh index does not hold the document),
  and \<open>index\<close> again.\<close>
definition ex_ops :: "blocker_op list" where
  "ex_ops = [Index [''Bob''] ''name'', ResetIndices, Unindex [''Bob''] ''name'', Index [''Jimmy''] ''name'']"

lemma ex_simple_call: "blocker_call ex_sim ex_heap ex_simple_blocker test_DATA False = (ex_simple_out, None)"
  by code_simp

section \<open>Witnesses\<close>

text \<open>The generator is lazy: the first pair comes out after three steps (take the first
  record, apply the first predicate, yield), before any other record is read.\<close>
lemma ex_gen_first:
  "(case gen_step ex_sim ex_heap (enumerate 0 (b_predicates ex_simple_blocker)) (gen_init test_DATA) of
      Silent g1 \<Rightarrow> (case gen_step ex_sim ex_heap (enumerate 0 (b_predicates ex_simple_blocker)) g1 of
        Silent g2 \<Rightarrow> (case gen_step ex_sim ex_heap (enumerate 0 (b_predicates ex_simple_blocker)) g2 of
          Emit ev g3 \<Rightarrow> ev = Yield ''Bob:0'' (100::nat) \<and> length (g_recs g3) = 9 | _ \<Rightarrow> False)
        | _ \<Rightarrow> False)
    | _ \<Rightarrow> False)"
  by code_simp

lemma gen_progress_log_witness:
  "snd (blocker_call ex_sim ex_heap ex_simple_blocker test_DATA False) = None
   \<and> gen_progress (fst (gen_run ex_sim ex_heap (enumerate 0 (b_predicates ex_simple_blocker)) (gen_init test_DATA))) = []"
  using gen_progress_log [of ex_sim ex_heap ex_simple_blocker test_DATA False] ex_simple_call
  by (simp add: test_DATA_def)

lemma blocker_call_keys_witness:
  "blocker_call ex_sim ex_heap ex_simple_blocker test_DATA False = (ex_simple_out, None)
   \<and> (\<exists>r i ks k. (120, r) \<in> set test_DATA \<and> i < length (b_predicates ex_simple_blocker)
        \<and> compound_keys ex_sim (h_idx ex_heap) (map (h_preds ex_heap) (b_predicates ex_simple_blocker ! i)) r = Inr ks
        \<and> k \<in> set ks \<and> ''Jim:1'' = k @ pred_id i)"
proof -
  have "(''Jim:1'', 120::nat) \<in> set ex_simple_out"
    by (simp add: ex_simple_out_def)
  then show ?thesis
    using blocker_call_keys [OF ex_simple_call] ex_simple_call by blast
qed

lemma blocker_call_shared_key_witness:
  "blocker_call ex_sim ex_heap ex_simple_blocker test_DATA False = (ex_simple_out, None)
   \<and> (\<exists>i k r1 r2 ks1 ks2. i < length (b_predicates ex_simple_blocker) \<and> ''Wil:35:2'' = k @ pred_id i
     \<and> (130, r1) \<in> set test_DATA \<and> (135, r2) \<in> set test_DATA
     \<and> compound_keys ex_sim (h_idx ex_heap) (map (h_preds ex_heap) (b_predicates ex_simple_blocker ! i)) r1 = Inr ks1
     \<and> compound_keys ex_sim (h_idx ex_heap) (map (h_preds ex_heap) (b_predicates ex_simple_blocker ! i)) r2 = Inr ks2
     \<and> k \<in> set ks1 \<and> k \<in> set ks2)"
proof -
  have "(''Wil:35:2'', 130::nat) \<in> set ex_simple_out" "(''Wil:35:2'', 135::nat) \<in> set ex_simple_out"
    by (simp_all add: ex_simple_out_def)
  then show ?thesis
    using blocker_call_shared_key [OF ex_simple_call] ex_simple_call by blast
qed

lemma ex_partial_call:
  "(''Bob:0'', 100) \<in> set (fst (blocker_call ex_sim ex_heap (fst ex_canopy_state) ex_recs False))
   \<and> snd (blocker_call ex_sim ex_heap (fst ex_canopy_state) ex_recs False) = Some (AttributeError ''index'')"
  by code_simp

text \<open>The run on the unindexed canopy Blocker raises at the canopy predicate of the first
  record, after the whole-name predicate has yielded its pair.\<close>
lemma blocker_call_key_shape_witness:
  "(''Bob:0'', 100::nat) \<in> set (fst (blocker_call ex_sim ex_heap (fst ex_canopy_state) ex_recs False))
   \<and> snd (blocker_call ex_sim ex_heap (fst ex_canopy_state) ex_recs False) \<noteq> None
   \<and> (\<exists>r ks. (100, r) \<in> set ex_recs \<and> key_ordinal ''Bob:0'' < length (b_predicates (fst ex_canopy_state))
     \<and> compound_keys ex_sim (h_idx ex_heap) (map (h_preds ex_heap) (b_predicates (fst ex_canopy_state) ! key_ordinal ''Bob:0'')) r = Inr ks
     \<and> key_base ''Bob:0'' \<in> set ks \<and> ''Bob:0'' = key_base ''Bob:0'' @ pred_id (key_ordinal ''Bob:0''))"
  using blocker_call_key_shape [of "''Bob:0''" 100 ex_sim ex_heap "fst ex_canopy_state" ex_recs False] ex_partial_call
  by auto

lemma blocker_call_equiv_witness:
  "snd (blocker_call ex_sim ex_heap ex_simple_blocker test_DATA False) = None
   \<and> fst (blocker_call ex_sim ex_heap ex_simple_blocker test_DATA False)
     = blocker_call_ref ex_sim ex_heap ex_simple_blocker test_DATA"
  using blocker_call_equiv [of ex_sim ex_heap ex_simple_blocker test_DATA False] ex_simple_call by simp

lemma ex_fresh_preds: "fresh_preds ex_heap ex_canopy_preds"
  by code_simp

lemma ex_unindex_raises: "case blocker_unindex [''Bob''] ''name''
   (blocker_run (take 2 ex_ops) (blocker_init ex_heap ex_canopy_preds, ex_heap)) of Done s' \<Rightarrow> False | Raised e s' \<Rightarrow> e = KeyError ''doc''"
  by code_simp

lemma ex_run: "b_index_predicates (fst (blocker_run ex_ops (blocker_init ex_heap ex_canopy_preds, ex_heap))) = [3, 4]
  \<and> same_bucket (snd (blocker_run ex_ops (blocker_init ex_heap ex_canopy_preds, ex_heap))) 3 4"
  by code_simp

lemma ex_run_fields: "fst (blocker_run ex_ops (blocker_init ex_heap ex_canopy_preds, ex_heap)) = fst ex_canopy_state"
  by code_simp

lemma ex_fresh:
  "\<forall>q \<in> set (concat ex_canopy_preds). has_index (h_preds ex_heap q) \<longrightarrow> pr_index (h_preds ex_heap q) = None"
  by (simp add: ex_canopy_preds_def ex_heap_def ex_pred_def)

lemma ex_canopy_bwf: "bwf ex_canopy_state"
  unfolding ex_canopy_state_def by (rule bwf_init [OF ex_fresh])

lemma ex_recs_fields:
  "\<forall>f \<in> fst ` set (b_index_fields (fst ex_canopy_state)). \<forall>(rid, r) \<in> set ex_recs. r f \<noteq> None"
  by code_simp

lemma ex_index_all: obtains s where "blocker_index_all ex_recs ex_canopy_state = Done s"
proof -
  from index_all_fold_Done [OF ex_canopy_bwf _ , of "map fst (b_index_fields (fst ex_canopy_state))" ex_recs]
    ex_recs_fields obtain s where "out_fold (index_field_step ex_recs) (map fst (b_index_fields (fst ex_canopy_state))) ex_canopy_state = Done s"
    by auto
  then have "blocker_index_all ex_recs ex_canopy_state = Done s"
    by (simp add: blocker_index_all_def index_field_step_def [abs_def])
  then show ?thesis by (rule that)
qed

section \<open>Witnesses of the Blocker invariant\<close>

lemma run_keeps_invariant_witness:
  "fresh_preds ex_heap ex_canopy_preds
   \<and> pr_index (h_preds (snd (blocker_run ex_ops (blocker_init ex_heap ex_canopy_preds, ex_heap))) 3)
     = pr_index (h_preds (snd (blocker_run ex_ops (blocker_init ex_heap ex_canopy_preds, ex_heap))) 4)"
proof -
  let ?S = "blocker_run ex_ops (blocker_init ex_heap ex_canopy_preds, ex_heap)"
  have "bwf (fst ?S, snd ?S)" using run_keeps_invariant [OF ex_fresh_preds, of ex_ops] by simp
  then have "index_sharing (fst ?S, snd ?S)" by (simp add: bwf_def)
  from index_sharingD(1) [OF this] ex_run ex_fresh_preds show ?thesis by simp
qed

lemma run_index_all_then_block_witness:
  "fresh_preds ex_heap ex_canopy_preds
   \<and> (\<exists>s'. blocker_index_all ex_recs (blocker_run ex_ops (blocker_init ex_heap ex_canopy_preds, ex_heap)) = Done s'
     \<and> snd (blocker_call ex_sim (snd s') (fst s') test_DATA False) = None)"
proof -
  let ?S = "blocker_run ex_ops (blocker_init ex_heap ex_canopy_preds, ex_heap)"
  have wf: "bwf ?S" by (intro reachable_bwf reachable_run reachable.init ex_fresh_preds)
  from index_all_fold_Done [OF wf _ , of "map fst (b_index_fields (fst ?S))" ex_recs] ex_recs_fields ex_run_fields
  obtain s' where "out_fold (index_field_step ex_recs) (map fst (b_index_fields (fst ?S))) ?S = Done s'"
    by auto
  then have s': "blocker_index_all ex_recs ?S = Done s'"
    by (simp add: blocker_index_all_def index_field_step_def [abs_def])
  from run_index_all_then_block [OF ex_fresh_preds s'] s' ex_fresh_preds show ?thesis by blast
qed

lemma index_all_then_block_witness:
  "\<exists>s'. blocker_index_all ex_recs (blocker_init ex_heap ex_canopy_preds, ex_heap) = Done s'
     \<and> snd (blocker_call ex_sim (snd s') (fst s') test_DATA False) = None"
proof -
  obtain s where "blocker_index_all ex_recs ex_canopy_state = Done s" by (rule ex_index_all)
  then have s: "blocker_index_all ex_recs (blocker_init ex_heap ex_canopy_preds, ex_heap) = Done s"
    by (simp add: ex_canopy_state_def)
  with index_all_then_block [OF ex_fresh s] show ?thesis by blast
qed

lemma index_all_returns_witness: "\<exists>s'. blocker_index_all ex_recs ex_canopy_state = Done s'"
  using index_all_returns [OF ex_canopy_bwf ex_recs_fields] .

lemma ex_index_name:
  "case blocker_index [''Bob'', ''Jimmy''] ''name'' ex_canopy_state of
     Done s' \<Rightarrow> 3 \<in> set (b_index_predicates (fst s')) \<and> pr_field (h_preds (snd s') 3) = ''name''
   | Raised e s' \<Rightarrow> False"
  by code_simp

lemma ex_unindexed_name: "unindexed_buckets ex_heap (field_buckets (fst ex_canopy_state) ''name'') = 1"
  by code_simp

lemma index_alloc_bound_witness:
  "\<exists>s'. blocker_index [''Bob'', ''Jimmy''] ''name'' ex_canopy_state = Done s' \<and> h_next (snd s') = 1
     \<and> h_next (snd s') \<le> h_next (snd ex_canopy_state) + length (field_buckets (fst ex_canopy_state) ''name'')"
proof (cases "blocker_index [''Bob'', ''Jimmy''] ''name'' ex_canopy_state")
  case (Done s')
  from index_alloc_bound [OF Done] ex_unindexed_name Done show ?thesis
    by (simp add: ex_canopy_state_def ex_heap_def)
next
  case (Raised e s')
  with ex_index_name show ?thesis by simp
qed

lemma index_keeps_invariant_witness:
  "\<exists>s' x. blocker_index [''Bob'', ''Jimmy''] ''name'' ex_canopy_state = Done s'
     \<and> pr_index (h_preds (snd s') 3) = Some x \<and> searchable (h_idx (snd s') x)"
proof -
  from index_keeps_invariant [OF ex_canopy_bwf, of "[''Bob'', ''Jimmy'']" "''name''"] obtain s'
    where s': "blocker_index [''Bob'', ''Jimmy''] ''name'' ex_canopy_state = Done s'" "field_ready s' ''name''"
    by blast
  from ex_index_name s'(1) have "3 \<in> set (b_index_predicates (fst s'))" "pr_field (h_preds (snd s') 3) = ''name''"
    by simp_all
  from field_readyD [OF s'(2) this] s'(1) show ?thesis by blast
qed

lemma ex_unindex_bucket:
  "3 \<in> set (b_index_predicates (fst (out_state (blocker_unindex [''Bob''] ''name'' ex_canopy_state))))
   \<and> 4 \<in> set (b_index_predicates (fst (out_state (blocker_unindex [''Bob''] ''name'' ex_canopy_state))))
   \<and> same_bucket (snd (out_state (blocker_unindex [''Bob''] ''name'' ex_canopy_state))) 3 4"
  by code_simp

lemma unindex_keeps_invariant_witness:
  "pr_index (h_preds (snd (out_state (blocker_unindex [''Bob''] ''name'' ex_canopy_state))) 3)
   = pr_index (h_preds (snd (out_state (blocker_unindex [''Bob''] ''name'' ex_canopy_state))) 4)"
  using bwf_shared_index [OF unindex_keeps_invariant [OF ex_canopy_bwf]] ex_unindex_bucket by blast

lemma ex_unindex_done:
  "case blocker_index_all ex_recs ex_canopy_state of
     Done s \<Rightarrow> (case blocker_unindex [''Bob''] ''name'' s of
         Done s' \<Rightarrow> 3 \<in> set (b_index_predicates (fst s')) \<and> pr_field (h_preds (snd s') 3) = ''name''
       | Raised e s' \<Rightarrow> False)
   | Raised e s \<Rightarrow> False"
  by code_simp

lemma unindex_done_ready_witness:
  "\<exists>s s' x. blocker_index_all ex_recs ex_canopy_state = Done s \<and> blocker_unindex [''Bob''] ''name'' s = Done s'
     \<and> pr_index (h_preds (snd s') 3) = Some x \<and> searchable (h_idx (snd s') x)"
proof -
  obtain s where s: "blocker_index_all ex_recs ex_canopy_state = Done s" by (rule ex_index_all)
  have wf: "bwf s" using blocker_index_all_ready [OF ex_canopy_bwf s] by simp
  from ex_unindex_done s obtain s' where s': "blocker_unindex [''Bob''] ''name'' s = Done s'"
    by (cases "blocker_unindex [''Bob''] ''name'' s") auto
  from ex_unindex_done s s' have "3 \<in> set (b_index_predicates (fst s'))" "pr_field (h_preds (snd s') 3) = ''name''"
    by simp_all
  from field_readyD [OF unindex_done_ready [OF wf s'] this] s s' show ?thesis by blast
qed

lemma reset_then_block_raises_witness:
  "[3] \<in> set (b_predicates (fst ex_canopy_state)) \<and> (3::pid) \<in> set [3]
   \<and> 3 \<in> set (b_index_predicates (fst ex_canopy_state)) \<and> has_index (h_preds (snd ex_canopy_state) 3)
   \<and> (100::nat, [''name'' \<mapsto> ''Bob'', ''age'' \<mapsto> ''50'']) \<in> set test_DATA
   \<and> [''name'' \<mapsto> ''Bob'', ''age'' \<mapsto> ''50''] (pr_field (h_preds (snd ex_canopy_state) 3)) = Some ''Bob''
   \<and> ''Bob'' \<noteq> []
   \<and> snd (blocker_call ex_sim (snd (reset_indices (fst ex_canopy_state, snd ex_canopy_state)))
        (fst ex_canopy_state) test_DATA False) \<noteq> None"
proof -
  have h: "[3] \<in> set (b_predicates (fst ex_canopy_state))" "(3::pid) \<in> set [3]"
    "3 \<in> set (b_index_predicates (fst ex_canopy_state))" "has_index (h_preds (snd ex_canopy_state) 3)"
    "(100::nat, [''name'' \<mapsto> ''Bob'', ''age'' \<mapsto> ''50'']) \<in> set test_DATA"
    "[''name'' \<mapsto> ''Bob'', ''age'' \<mapsto> ''50''] (pr_field (h_preds (snd ex_canopy_state) 3)) = Some ''Bob''"
    "''Bob'' \<noteq> []"
    by (code_simp, code_simp, code_simp, code_simp, simp add: test_DATA_def, code_simp, simp)
  from reset_then_block_raises [OF h, of ex_sim False] h show ?thesis by blast
qed

section \<open>Error behaviour on concrete inputs\<close>

text \<open>
  \<open>unindex\<close> is not atomic: on the three-record example indexed by \<open>indexAll\<close>,
  unindexing the names Bob (indexed) and Zed (never indexed) removes Bob, which
  invalidates the index, then raises KeyError at Zed before \<open>initSearch\<close> runs
  again (blocking.py lines 90-101); the Blocker is left with an index that is not
  ready, and the next \<open>__call__\<close> raises.
\<close>
theorem unindex_partial_failure:
  "case blocker_index_all ex_recs ex_canopy_state of
     Done s \<Rightarrow> (case blocker_unindex [''Bob'', ''Zed''] ''name'' s of
        Raised e s' \<Rightarrow> e = KeyError ''doc''
          \<and> snd (blocker_call ex_sim (snd s') (fst s') ex_recs False) = Some (RuntimeError ''search before initSearch'')
      | Done s' \<Rightarrow> False)
   | Raised e s \<Rightarrow> False"
  by code_simp

text \<open>
  \<open>index(data, field)\<close> on a field with no index predicates reads
  \<open>self.index_fields[field]\<close>, which inserts an empty entry for the field into the
  defaultdict (blocking.py line 71); \<open>indexAll\<close> then iterates over that field too and
  raises KeyError on records that do not have it (lines 103-108).
\<close>
lemma ex_index_unknown_field:
  "case blocker_index [] ''email'' ex_canopy_state of
     Done s \<Rightarrow> (case blocker_index_all ex_recs s of Raised e s' \<Rightarrow> e = KeyError ''email'' | Done s' \<Rightarrow> False)
   | Raised e s \<Rightarrow> False"
  by code_simp

text \<open>
  \<open>index\<close> on empty data is not a no-op, as spec 4.2 says it is: on the example
  Blocker, whose canopy predicates have no index yet, blocking the first three records
  raises; after \<open>index([], 'name')\<close>, which allocates and publishes empty indexes,
  the same call returns all its pairs, and the Blocker's own attributes are unchanged.
\<close>
theorem index_empty_not_noop:
  "snd (blocker_call ex_sim ex_heap (fst ex_canopy_state) ex_recs False) \<noteq> None
   \<and> (case blocker_index [] ''name'' ex_canopy_state of
        Done s' \<Rightarrow> snd (blocker_call ex_sim (snd s') (fst s') ex_recs False) = None \<and> fst s' = fst ex_canopy_state
      | Raised e s' \<Rightarrow> False)"
  by code_simp

lemma ex_email_absent:
  "''email'' \<notin> fst ` set (b_index_fields (fst ex_canopy_state)) \<and> snd (hd ex_recs) ''email'' = None"
  by code_simp

lemma ex_recs_hd: "(fst (hd ex_recs), snd (hd ex_recs)) \<in> set ex_recs"
  by (simp add: ex_recs_def test_DATA_def)

lemma index_unknown_field_breaks_index_all_witness:
  "(\<exists>s1. blocker_index_all ex_recs ex_canopy_state = Done s1)
   \<and> (\<exists>s'. blocker_index [] ''email'' ex_canopy_state = Done s'
     \<and> (\<exists>s''. blocker_index_all ex_recs s' = Raised (KeyError ''email'') s''))"
  using ex_email_absent index_unknown_field_breaks_index_all [OF ex_canopy_bwf _ ex_recs_fields ex_recs_hd, where f = "''email''" and data = "[]"]
  by blast

end
