(* ===== verification/Random_Pairs.thy ===== *)
theory Random_Pairs
  imports Prelude
begin

text \<open>
  Random pair sampling, \<open>dedupe.core.randomPairs\<close> and \<open>randomPairsMatch\<close> (spec 6
  and 8; the core module is not under src/, so it is modelled from the spec and from
  the expectations of src/test/test_dedupe.py). A pair of distinct records among
  \<open>n\<close> is numbered by its position in the row-major enumeration of the upper
  triangle, \<open>(0,1), (0,2), ..., (0,n-1), (1,2), ...\<close>; sampling draws numbers
  and decodes each into its pair. The draw of \<open>random.sample\<close> is an input of the
  model: its contract (distinct numbers below the number of pairs, as many as asked)
  is a hypothesis of the theorems that need it.
\<close>

section \<open>Enumeration of pairs\<close>

text \<open>Row \<open>i\<close>: the pairs \<open>(i, j)\<close>, \<open>i < j < n\<close>.\<close>
definition pair_row :: "nat \<Rightarrow> nat \<Rightarrow> (nat \<times> nat) list" where
  "pair_row n i = map (\<lambda>j. (i, j)) [Suc i..<n]"

text \<open>The reference order: the rows \<open>x\<close> to \<open>y - 1\<close>, one after the other.\<close>
definition pairs_between :: "nat \<Rightarrow> nat \<Rightarrow> nat \<Rightarrow> (nat \<times> nat) list" where
  "pairs_between n x y = concat (map (pair_row n) [x..<y])"

abbreviation pairs_from :: "nat \<Rightarrow> nat \<Rightarrow> (nat \<times> nat) list" where
  "pairs_from n x \<equiv> pairs_between n x n"

abbreviation all_pairs :: "nat \<Rightarrow> (nat \<times> nat) list" where
  "all_pairs n \<equiv> pairs_from n 0"

text \<open>\<open>n_records * (n_records - 1) / 2\<close> with Python 2 integer division.\<close>
definition n_pairs :: "nat \<Rightarrow> nat" where
  "n_pairs n = n * (n - 1) div 2"

text \<open>
  Decoding a pair number: skip whole rows while the number is past the current row.
  This is the exact-arithmetic meaning of the closed form of the library
  (\<open>x = trunc((-b - sqrt(b^2 - 8k)) / 2)\<close>, \<open>y = k + x (b + x + 2) / 2 + 1\<close>,
  \<open>b = 1 - 2n\<close>), whose floating-point evaluation is not modelled.
\<close>
function row_decode :: "nat \<Rightarrow> nat \<Rightarrow> nat \<Rightarrow> nat \<times> nat" where
  "row_decode n x k =
     (if n \<le> Suc x \<or> k < n - Suc x then (x, Suc x + k)
      else row_decode n (Suc x) (k - (n - Suc x)))"
  by pat_completeness auto
termination by (relation "measure (\<lambda>(n, x, k). n - x)") auto

declare row_decode.simps [simp del]

definition decode_pair :: "nat \<Rightarrow> nat \<Rightarrow> nat \<times> nat" where
  "decode_pair n k = row_decode n 0 k"

text \<open>The inverse: the number of a pair.\<close>
definition pair_index :: "nat \<Rightarrow> nat \<times> nat \<Rightarrow> nat" where
  "pair_index n p = (case p of (i, j) \<Rightarrow> sum_list (map (\<lambda>t. n - Suc t) [0..<i]) + (j - Suc i))"

section \<open>Sampling\<close>

text \<open>The text of the truncation warning.\<close>
definition sample_warning :: "nat \<Rightarrow> nat \<Rightarrow> string" where
  "sample_warning k n = ''Requested sample of size '' @ str_nat k @ '', only returning ''
     @ str_nat n @ '' possible pairs''"

text \<open>
  \<open>randomPairs(n_records, sample_size)\<close>: fewer than two records is a hard error; a
  request for at least all the pairs returns all of them in order (\<open>numpy.arange\<close>),
  with one warning when it asked for more; otherwise the drawn numbers are decoded.
  The result carries the warnings emitted and the pairs.
\<close>
definition random_pairs :: "nat \<Rightarrow> nat \<Rightarrow> nat list \<Rightarrow> py_error + string list \<times> (nat \<times> nat) list" where
  "random_pairs n_records sample_size draw =
     (if n_records < 2 then Inl (ValueError ''Needs at least two records'')
      else
        (let n = n_pairs n_records in
         if n \<le> sample_size
         then Inr (if n < sample_size then [sample_warning sample_size n] else [],
                   map (decode_pair n_records) [0..<n])
         else Inr ([], map (decode_pair n_records) draw)))"

text \<open>
  \<open>randomPairsMatch(n_A, n_B, sample_size)\<close>: pairs across two datasets, numbered in
  row-major order of the \<open>n_A \<times> n_B\<close> grid (\<open>numpy.unravel_index\<close>).
\<close>
definition random_pairs_match :: "nat \<Rightarrow> nat \<Rightarrow> nat \<Rightarrow> nat list \<Rightarrow> (nat \<times> nat) list" where
  "random_pairs_match n_a n_b sample_size draw =
     (let n = n_a * n_b; ks = (if n \<le> sample_size then [0..<n] else draw) in
      map (\<lambda>k. (k div n_b, k mod n_b)) ks)"

text \<open>The contract of \<open>random.sample(xrange(n), k)\<close>.\<close>
definition sample_ok :: "nat \<Rightarrow> nat \<Rightarrow> nat list \<Rightarrow> bool" where
  "sample_ok n k draw \<longleftrightarrow> length draw = k \<and> distinct draw \<and> (\<forall>d \<in> set draw. d < n)"

section \<open>Lemmas on the enumeration\<close>

lemma length_pair_row [simp]: "length (pair_row n i) = n - Suc i"
  by (simp add: pair_row_def)

lemma pair_row_nth: "k < n - Suc i \<Longrightarrow> pair_row n i ! k = (i, Suc i + k)"
  by (simp add: pair_row_def)

lemma set_pair_row: "set (pair_row n i) = {(i, j) | j. i < j \<and> j < n}"
  by (auto simp: pair_row_def)

lemma pairs_between_Suc: "x < y \<Longrightarrow> pairs_between n x y = pair_row n x @ pairs_between n (Suc x) y"
  by (simp add: pairs_between_def upt_conv_Cons)

lemma pairs_between_empty: "y \<le> x \<Longrightarrow> pairs_between n x y = []"
  by (simp add: pairs_between_def)

lemma pairs_between_split:
  "x \<le> m \<Longrightarrow> m \<le> y \<Longrightarrow> pairs_between n x y = pairs_between n x m @ pairs_between n m y"
  using upt_add_eq_append [of x m "y - m"] by (simp add: pairs_between_def)

lemma length_pairs_between:
  "length (pairs_between n x y) = sum_list (map (\<lambda>t. n - Suc t) [x..<y])"
  by (simp add: pairs_between_def length_concat comp_def)

lemma set_pairs_between:
  "set (pairs_between n x y) = {(i, j). x \<le> i \<and> i < y \<and> i < j \<and> j < n}"
  by (auto simp: pairs_between_def set_pair_row)

lemma distinct_pairs_between: "distinct (pairs_between n x y)"
proof (induction "y - x" arbitrary: x)
  case 0
  then show ?case by (simp add: pairs_between_empty)
next
  case (Suc d)
  then have "x < y" "d = y - Suc x" by simp_all
  have "distinct (pair_row n x)" by (simp add: pair_row_def distinct_map inj_on_def)
  moreover have "set (pair_row n x) \<inter> set (pairs_between n (Suc x) y) = {}"
    by (auto simp: set_pair_row set_pairs_between)
  moreover have "distinct (pairs_between n (Suc x) y)" using Suc.hyps(1) [of "Suc x"] \<open>d = y - Suc x\<close> .
  ultimately show ?case by (simp add: pairs_between_Suc [OF \<open>x < y\<close>])
qed

lemma sum_rows: "sum_list (map (\<lambda>t. n - Suc t) [0..<n]) = n_pairs n"
proof -
  have eq: "2 * (\<Sum>t<n. n - Suc t) = n * (n - 1)" for n
  proof (induction n)
    case (Suc n)
    have "(\<Sum>t<Suc n. Suc n - Suc t) = n + (\<Sum>t<n. n - Suc t)"
      by (subst sum.lessThan_Suc_shift) simp
    moreover have "n * (n - 1) + 2 * n = Suc n * n" by (cases n) (simp_all add: algebra_simps)
    ultimately show ?case using Suc.IH by simp
  qed simp
  have "sum_list (map (\<lambda>t. n - Suc t) [0..<n]) = (\<Sum>t<n. n - Suc t)"
    by (simp add: sum_list_distinct_conv_sum_set atLeast0LessThan)
  also have "\<dots> = n * (n - 1) div 2"
    using eq [of n] by linarith
  finally show ?thesis by (simp add: n_pairs_def)
qed

lemma length_all_pairs [simp]: "length (all_pairs n) = n_pairs n"
  by (simp add: length_pairs_between sum_rows)

lemma row_decode_nth:
  "k < length (pairs_from n x) \<Longrightarrow> row_decode n x k = pairs_from n x ! k"
proof (induction n x k rule: row_decode.induct)
  case (1 n x k)
  show ?case
  proof (cases "n \<le> Suc x \<or> k < n - Suc x")
    case True
    have "x < n"
    proof (rule ccontr)
      assume "\<not> x < n"
      then have "pairs_from n x = []" by (simp add: pairs_between_empty)
      with "1.prems" show False by simp
    qed
    have len: "length (pairs_from n x) = (n - Suc x) + length (pairs_from n (Suc x))"
      by (simp add: pairs_between_Suc [OF \<open>x < n\<close>])
    have k: "k < n - Suc x"
    proof (cases "n \<le> Suc x")
      case True
      then have "pairs_from n (Suc x) = []" by (simp add: pairs_between_empty)
      with len "1.prems" True show ?thesis by simp
    next
      case False
      with \<open>n \<le> Suc x \<or> k < n - Suc x\<close> show ?thesis by simp
    qed
    then show ?thesis
      by (simp add: row_decode.simps [of n x k] pairs_between_Suc [OF \<open>x < n\<close>] nth_append pair_row_nth)
  next
    case False
    then have x: "x < n" and k: "n - Suc x \<le> k" by auto
    with "1.prems" have "k - (n - Suc x) < length (pairs_from n (Suc x))"
      by (simp add: pairs_between_Suc [OF x])
    with "1.IH" [OF False] False x k show ?thesis
      by (simp add: row_decode.simps [of n x k] pairs_between_Suc [OF x] nth_append)
  qed
qed

lemma decode_pair_nth: "k < n_pairs n \<Longrightarrow> decode_pair n k = all_pairs n ! k"
  by (simp add: decode_pair_def row_decode_nth)

lemma pair_index_nth:
  assumes "i < j" "j < n"
  shows "pair_index n (i, j) < n_pairs n \<and> all_pairs n ! pair_index n (i, j) = (i, j)"
proof -
  let ?pre = "pairs_between n 0 i"
  have parts: "all_pairs n = ?pre @ pair_row n i @ pairs_from n (Suc i)"
    using assms pairs_between_split [of 0 i n n] pairs_between_Suc [of i n n] by simp
  have off: "j - Suc i < n - Suc i" using assms by simp
  have idx: "pair_index n (i, j) = length ?pre + (j - Suc i)"
    by (simp add: pair_index_def length_pairs_between)
  have "length (all_pairs n) = length ?pre + (n - Suc i) + length (pairs_from n (Suc i))"
    by (subst parts) simp
  with off idx have "pair_index n (i, j) < n_pairs n" by simp
  moreover have "all_pairs n ! pair_index n (i, j) = (pair_row n i @ pairs_from n (Suc i)) ! (j - Suc i)"
    unfolding idx by (subst parts) (rule nth_append_length_plus)
  moreover have "(pair_row n i @ pairs_from n (Suc i)) ! (j - Suc i) = (i, j)"
    using off assms by (simp add: nth_append pair_row_nth)
  ultimately show ?thesis by simp
qed

lemma pair_index_decode:
  assumes "k < n_pairs n"
  shows "fst (decode_pair n k) < snd (decode_pair n k) \<and> snd (decode_pair n k) < n
    \<and> pair_index n (decode_pair n k) = k"
proof -
  obtain i j where ij: "decode_pair n k = (i, j)" by fastforce
  with assms have "all_pairs n ! k = (i, j)" by (simp add: decode_pair_nth)
  with assms have "(i, j) \<in> set (all_pairs n)" by (metis length_all_pairs nth_mem)
  then have lt: "i < j" "j < n" by (simp_all add: set_pairs_between)
  from pair_index_nth [OF lt] have "pair_index n (i, j) < length (all_pairs n)"
    "all_pairs n ! pair_index n (i, j) = all_pairs n ! k"
    using \<open>all_pairs n ! k = (i, j)\<close> by simp_all
  with assms distinct_pairs_between [of n 0 n] have "pair_index n (i, j) = k"
    by (simp add: nth_eq_iff_index_eq)
  with ij lt show ?thesis by simp
qed

lemma decode_pair_all: "map (decode_pair n) [0..<n_pairs n] = all_pairs n"
  by (rule nth_equalityI) (simp_all add: decode_pair_nth)

lemma inj_on_decode_pair: "inj_on (decode_pair n) {..<n_pairs n}"
  by (metis inj_onI lessThan_iff pair_index_decode)

lemma set_all_pairs: "set (all_pairs n) = {(i, j). i < j \<and> j < n}"
  by (auto simp: set_pairs_between)

lemma decode_pair_in:
  "k < n_pairs n \<Longrightarrow> decode_pair n k \<in> {(i, j). i < j \<and> j < n}"
  using pair_index_decode [of k n] by (auto split: prod.splits)

lemma decode_draw:
  assumes "sample_ok (n_pairs m) k draw"
  shows "distinct (map (decode_pair m) draw) \<and> set (map (decode_pair m) draw) \<subseteq> {(i, j). i < j \<and> j < m}
    \<and> length (map (decode_pair m) draw) = k"
proof -
  from assms have d: "distinct draw" "set draw \<subseteq> {..<n_pairs m}" "length draw = k"
    by (auto simp: sample_ok_def)
  from d(2) have "inj_on (decode_pair m) (set draw)" by (rule inj_on_subset [OF inj_on_decode_pair])
  moreover have "decode_pair m x \<in> {(i, j). i < j \<and> j < m}" if "x \<in> set draw" for x
    using that d(2) by (intro decode_pair_in) auto
  then have "set (map (decode_pair m) draw) \<subseteq> {(i, j). i < j \<and> j < m}"
    unfolding set_map by (rule image_subsetI)
  ultimately show ?thesis using d by (simp add: distinct_map)
qed

lemma random_pairs_Inr:
  assumes "2 \<le> m" and "k < n_pairs m \<Longrightarrow> sample_ok (n_pairs m) k draw"
  shows "\<exists>ps. random_pairs m k draw = Inr (if n_pairs m < k then [sample_warning k (n_pairs m)] else [], ps)
        \<and> distinct ps \<and> set ps \<subseteq> {(i, j). i < j \<and> j < m} \<and> length ps = min k (n_pairs m)"
proof (cases "n_pairs m \<le> k")
  case True
  with assms(1) have "random_pairs m k draw =
      Inr (if n_pairs m < k then [sample_warning k (n_pairs m)] else [], all_pairs m)"
    by (simp add: random_pairs_def decode_pair_all)
  with True show ?thesis
    by (intro exI [of _ "all_pairs m"]) (simp add: distinct_pairs_between set_all_pairs)
next
  case False
  with assms(1) have "random_pairs m k draw =
      Inr (if n_pairs m < k then [sample_warning k (n_pairs m)] else [], map (decode_pair m) draw)"
    by (simp add: random_pairs_def)
  with False decode_draw [OF assms(2)] show ?thesis
    by (intro exI [of _ "map (decode_pair m) draw"]) simp
qed

section \<open>Properties\<close>

text \<open>
  The pair decoder of \<open>randomPairs\<close>, which skips whole rows of the upper triangle,
  lists the pairs in the reference order: decoding the numbers \<open>0, 1, ...\<close> up to the
  number of pairs gives every pair \<open>(i, j)\<close>, \<open>i < j < n\<close>, row by row.
\<close>
theorem decode_pair_reference:
  "map (decode_pair n) [0..<n_pairs n] = concat (map (\<lambda>i. map (\<lambda>j. (i, j)) [Suc i..<n]) [0..<n])"
  using decode_pair_all [of n] by (simp add: pairs_between_def pair_row_def [abs_def])

text \<open>
  Pair numbers round-trip: the number of a pair \<open>(i, j)\<close> with \<open>i < j < n\<close> is below
  the number of pairs and decodes back to \<open>(i, j)\<close>; every number below the number of
  pairs decodes to such a pair whose number it is.
\<close>
theorem pair_index_roundtrip:
  "i < j \<and> j < n \<longleftrightarrow> pair_index n (i, j) < n_pairs n \<and> decode_pair n (pair_index n (i, j)) = (i, j)"
proof
  assume "i < j \<and> j < n"
  then have p: "pair_index n (i, j) < n_pairs n" "all_pairs n ! pair_index n (i, j) = (i, j)"
    using pair_index_nth [of i j n] by simp_all
  then show "pair_index n (i, j) < n_pairs n \<and> decode_pair n (pair_index n (i, j)) = (i, j)"
    using decode_pair_nth [OF p(1)] by simp
next
  assume "pair_index n (i, j) < n_pairs n \<and> decode_pair n (pair_index n (i, j)) = (i, j)"
  then have "pair_index n (i, j) < n_pairs n" "decode_pair n (pair_index n (i, j)) = (i, j)" by simp_all
  with pair_index_decode [of "pair_index n (i, j)" n] show "i < j \<and> j < n" by simp
qed

text \<open>
  \<open>randomPairs(n_records, sample_size)\<close> on at least two records returns
  \<open>min(sample_size, n_records (n_records - 1) / 2)\<close> distinct pairs \<open>(i, j)\<close> with
  \<open>i < j < n_records\<close>, and warns exactly once, with the true maximum, when more pairs
  were asked than exist; with fewer than two records it raises ValueError. The draw is
  assumed to satisfy the contract of \<open>random.sample\<close> when it is used.
\<close>
theorem random_pairs_spec:
  assumes "k < n_pairs m \<Longrightarrow> sample_ok (n_pairs m) k draw"
  shows "(m < 2 \<longrightarrow> random_pairs m k draw = Inl (ValueError ''Needs at least two records''))
    \<and> (2 \<le> m \<longrightarrow> (\<exists>ps. random_pairs m k draw =
          Inr (if n_pairs m < k then [sample_warning k (n_pairs m)] else [], ps)
        \<and> distinct ps \<and> set ps \<subseteq> {(i, j). i < j \<and> j < m} \<and> length ps = min k (n_pairs m)))"
  using random_pairs_Inr [OF _ assms] by (simp add: random_pairs_def)

text \<open>
  The expectations of test_dedupe.py on \<open>randomPairs\<close> (lines 50-59 and 82-86):
  one record raises ValueError; with ten records the numbers of the pairs
  \<open>[1,8], [5,7], [1,2], [3,7], [2,9]\<close> decode to exactly that sequence; asking for
  10000 pairs of ten records returns all 45 pairs and warns once, with the text the
  test expects.
\<close>
theorem random_pairs_tests:
  "random_pairs 1 10 [] = Inl (ValueError ''Needs at least two records'')
   \<and> random_pairs 10 5 (map (pair_index 10) [(1, 8), (5, 7), (1, 2), (3, 7), (2, 9)])
       = Inr ([], [(1, 8), (5, 7), (1, 2), (3, 7), (2, 9)])
   \<and> random_pairs 10 10000 []
       = Inr ([''Requested sample of size 10000, only returning 45 possible pairs''], all_pairs 10)"
proof (intro conjI)
  show "random_pairs 1 10 [] = Inl (ValueError ''Needs at least two records'')"
    by (simp add: random_pairs_def)
  show "random_pairs 10 5 (map (pair_index 10) [(1, 8), (5, 7), (1, 2), (3, 7), (2, 9)])
       = Inr ([], [(1, 8), (5, 7), (1, 2), (3, 7), (2, 9)])"
    by code_simp
  show "random_pairs 10 10000 []
       = Inr ([''Requested sample of size 10000, only returning 45 possible pairs''], all_pairs 10)"
    by (simp add: random_pairs_def n_pairs_def sample_warning_def str_nat.simps
        decode_pair_all [of 10, unfolded n_pairs_def, simplified])
qed

section \<open>Witnesses\<close>

lemma random_pairs_spec_witness:
  "\<exists>ps. random_pairs 10 5 (map (pair_index 10) [(1, 8), (5, 7), (1, 2), (3, 7), (2, 9)]) = Inr ([], ps)
     \<and> distinct ps \<and> set ps \<subseteq> {(i, j). i < j \<and> j < 10} \<and> length ps = 5"
proof -
  have "sample_ok (n_pairs 10) 5 (map (pair_index 10) [(1, 8), (5, 7), (1, 2), (3, 7), (2, 9)])"
    by code_simp
  from random_pairs_spec [of 5 10, OF this] show ?thesis by (simp add: n_pairs_def)
qed

end
