(* ===== verification/Convenience.thy ===== *)
theory Convenience
  imports Random_Pairs Fixtures
begin

text \<open>
  src/dedupe/convenience.py: \<open>dataSample\<close>, which draws random pairs of records from a
  data dictionary through \<open>randomPairs\<close> or, for record linkage, \<open>randomPairsMatch\<close>;
  and \<open>blockData\<close>, which groups the records by the block keys a Blocker gives them.
  Record values are Python values (strings in the fixtures, the integer dataset tag in
  record linkage). The data dictionary carries the \<open>constrained\<close> attribute the code
  reads, absent on a plain dict.
\<close>

section \<open>Data\<close>

datatype pyval = PStr string | PInt int

type_synonym py_record = "field \<rightharpoonup> pyval"

text \<open>A data dictionary: its items in iteration order, and its \<open>constrained\<close>
  attribute, \<open>None\<close> when the object has no such attribute (a plain dict).\<close>
record 'i data_dict =
  dd_items :: "('i \<times> py_record) list"
  dd_constrained :: "bool option"

text \<open>\<open>v == 0\<close> for the values a record holds.\<close>
primrec py_eq_zero :: "pyval \<Rightarrow> bool" where
  "py_eq_zero (PInt i) = (i = 0)"
| "py_eq_zero (PStr s) = False"

section \<open>\<open>dataSample\<close>\<close>

text \<open>Lines 19-26: the records of dataset 0 and the others, in order; a record without
  a \<open>dataset\<close> key raises KeyError.\<close>
fun split_datasets :: "py_record list \<Rightarrow> py_error + py_record list \<times> py_record list" where
  "split_datasets [] = Inr ([], [])"
| "split_datasets (r # rs) =
     (case r ''dataset'' of
        None \<Rightarrow> Inl (KeyError ''dataset'')
      | Some v \<Rightarrow>
          (case split_datasets rs of
             Inl e \<Rightarrow> Inl e
           | Inr (as, bs) \<Rightarrow> if py_eq_zero v then Inr (r # as, bs) else Inr (as, r # bs)))"

text \<open>\<open>(data_list_A[int(k1)], data_list_B[int(k2)])\<close>, left to right.\<close>
definition record_pair :: "py_record list \<Rightarrow> py_record list \<Rightarrow> nat \<times> nat \<Rightarrow> py_error + py_record \<times> py_record" where
  "record_pair as bs p =
     (case p of (k1, k2) \<Rightarrow>
        (case nth_err as k1 of
           Inl e \<Rightarrow> Inl e
         | Inr a \<Rightarrow> (case nth_err bs k2 of Inl e \<Rightarrow> Inl e | Inr b \<Rightarrow> Inr (a, b))))"

text \<open>
  \<open>dataSample(data, sample_size)\<close>, lines 13-34, with the draw of the random module
  as an argument. The result carries the warnings \<open>randomPairs\<close> emitted and the
  tuple of record pairs.
\<close>
definition data_sample :: "'i data_dict \<Rightarrow> nat \<Rightarrow> nat list
    \<Rightarrow> py_error + string list \<times> (py_record \<times> py_record) list" where
  "data_sample data sample_size draw =
     (let data_list = map snd (dd_items data) in
      case dd_constrained data of
        None \<Rightarrow> Inl (AttributeError ''constrained'')
      | Some True \<Rightarrow>
          (case split_datasets data_list of
             Inl e \<Rightarrow> Inl e
           | Inr (as, bs) \<Rightarrow>
               map_sum id (Pair [])
                 (map_err (record_pair as bs)
                    (random_pairs_match (length as) (length bs) sample_size draw)))
      | Some False \<Rightarrow>
          (case random_pairs (length data_list) sample_size draw of
             Inl e \<Rightarrow> Inl e
           | Inr (w, ps) \<Rightarrow> map_sum id (Pair w) (map_err (record_pair data_list data_list) ps)))"

section \<open>\<open>blockData\<close>\<close>

text \<open>The attributes of a \<open>Blocker\<close> instance (src/dedupe/blocking.py lines 16-110):
  its methods and the three attributes \<open>__init__\<close> sets.\<close>
definition blocker_attrs :: "string list" where
  "blocker_attrs = [''__init__'', ''__call__'', ''resetIndices'', ''index'', ''unindex'',
     ''indexAll'', ''predicates'', ''index_fields'', ''index_predicates'']"

definition blocker_getattr :: "string \<Rightarrow> py_error + string" where
  "blocker_getattr a = (if a \<in> set blocker_attrs then Inr a else Inl (AttributeError a))"

text \<open>Blocks: an OrderedDict from key to a dict from record id to record.\<close>
type_synonym 'i blocks = "(string \<times> ('i \<times> py_record) list) list"

text \<open>\<open>blocks.setdefault(key, {}).update({record_id : record})\<close>.\<close>
definition block_add :: "string \<Rightarrow> 'i \<Rightarrow> py_record \<Rightarrow> 'i blocks \<Rightarrow> 'i blocks" where
  "block_add key rid r bl = (let (d, bl') = dd_get [] key bl in AList.update key (AList.update rid r d) bl')"

text \<open>
  Lines 45-47. \<open>keys\<close> stands for the generator \<open>blocker((record_id, record))\<close>: the
  keys it yields, and the exception that ends it, if any; the keys yielded before an
  exception are grouped before it propagates.
\<close>
fun block_loop :: "('i \<times> py_record \<Rightarrow> string list \<times> py_error option) \<Rightarrow> ('i \<times> py_record) list
    \<Rightarrow> 'i blocks \<Rightarrow> py_error + 'i blocks" where
  "block_loop keys [] bl = Inr bl"
| "block_loop keys ((rid, r) # rs) bl =
     (let (ks, e) = keys (rid, r); bl' = fold (\<lambda>k. block_add k rid r) ks bl in
      case e of Some err \<Rightarrow> Inl err | None \<Rightarrow> block_loop keys rs bl')"

text \<open>
  \<open>blockData(data_d, blocker)\<close>, lines 37-51. The callee \<open>blocker.tfIdfBlocks\<close> is looked
  up first, then its arguments are evaluated; the call itself is not modelled (no
  such method exists in the sources). The result is the tuple of the blocks' dicts.
\<close>
definition block_data :: "('i \<times> py_record \<Rightarrow> string list \<times> py_error option) \<Rightarrow> 'i data_dict
    \<Rightarrow> py_error + ('i \<times> py_record) list list" where
  "block_data keys data =
     (case blocker_getattr ''tfIdfBlocks'' of
        Inl e \<Rightarrow> Inl e
      | Inr m \<Rightarrow>
          (case dd_constrained data of
             None \<Rightarrow> Inl (AttributeError ''constrained'')
           | Some c \<Rightarrow> map_sum id (map snd) (block_loop keys (dd_items data) [])))"

section \<open>Specifications\<close>

text \<open>A record of dataset 0: its \<open>dataset\<close> value equals 0.\<close>
definition in_dataset_zero :: "py_record \<Rightarrow> bool" where
  "in_dataset_zero r = (case r ''dataset'' of Some v \<Rightarrow> py_eq_zero v | None \<Rightarrow> False)"

text \<open>The spec's Block: the records that a key function gives the key.\<close>
definition blocks_spec :: "('i \<times> py_record \<Rightarrow> string list \<times> py_error option) \<Rightarrow> ('i \<times> py_record) list
    \<Rightarrow> string \<Rightarrow> ('i \<times> py_record) set" where
  "blocks_spec keys data k = {x \<in> set data. k \<in> set (fst (keys x))}"

text \<open>The block of a key in the OrderedDict, as a set of pairs.\<close>
definition blocks_abs :: "'i blocks \<Rightarrow> string \<Rightarrow> ('i \<times> py_record) set" where
  "blocks_abs bl k = (case map_of bl k of None \<Rightarrow> {} | Some d \<Rightarrow> set d)"

text \<open>Distinct keys, and every block a non-empty dict.\<close>
definition blocks_wf :: "'i blocks \<Rightarrow> bool" where
  "blocks_wf bl \<longleftrightarrow> distinct (map fst bl)
     \<and> (\<forall>k d. map_of bl k = Some d \<longrightarrow> d \<noteq> [] \<and> distinct (map fst d))"

section \<open>Fixtures\<close>

text \<open>The records of \<open>DATA\<close> (test_dedupe.py lines 10-20) as Python values.\<close>
definition py_DATA :: "(nat \<times> py_record) list" where
  "py_DATA = map (\<lambda>(i, r). (i, map_option PStr \<circ> r)) test_DATA"

text \<open>\<open>dedupe.dataSample(DATA, 5)\<close> (test line 75) passes the plain dict.\<close>
definition plain_DATA :: "nat data_dict" where
  "plain_DATA = \<lparr>dd_items = py_DATA, dd_constrained = None\<rparr>"

definition sampled_DATA :: "nat data_dict" where
  "sampled_DATA = \<lparr>dd_items = py_DATA, dd_constrained = Some False\<rparr>"

text \<open>Three records of two datasets for record linkage, one without its tag.\<close>
definition link_DATA :: "nat data_dict" where
  "link_DATA = \<lparr>dd_items =
     [(1, [''dataset'' \<mapsto> PInt 0, ''name'' \<mapsto> PStr ''Bob'']),
      (2, [''dataset'' \<mapsto> PInt 1, ''name'' \<mapsto> PStr ''Robert'']),
      (3, [''dataset'' \<mapsto> PInt 0, ''name'' \<mapsto> PStr ''Sue''])], dd_constrained = Some True\<rparr>"

definition untagged_DATA :: "nat data_dict" where
  "untagged_DATA = link_DATA\<lparr>dd_items := dd_items link_DATA @ [(4, [''name'' \<mapsto> PStr ''Ann''])]\<rparr>"

text \<open>Keys by the first three characters of the name, as a predicate of the
  FirstChars kind would give them.\<close>
definition first3_keys :: "nat \<times> py_record \<Rightarrow> string list \<times> py_error option" where
  "first3_keys x = (case snd x ''name'' of Some (PStr s) \<Rightarrow> ([take 3 s], None) | _ \<Rightarrow> ([], None))"

section \<open>Lemmas on \<open>dataSample\<close>\<close>

lemma in_dataset_zero_Some: "r ''dataset'' = Some v \<Longrightarrow> in_dataset_zero r = py_eq_zero v"
  by (simp add: in_dataset_zero_def)

lemma split_datasets_spec:
  "split_datasets xs =
     (if \<forall>r \<in> set xs. r ''dataset'' \<noteq> None
      then Inr (filter in_dataset_zero xs, filter (\<lambda>r. \<not> in_dataset_zero r) xs)
      else Inl (KeyError ''dataset''))"
  by (induction xs) (auto simp: in_dataset_zero_Some split: option.splits sum.splits)

lemma record_pair_nth:
  "i < length as \<Longrightarrow> j < length bs \<Longrightarrow> record_pair as bs (i, j) = Inr (as ! i, bs ! j)"
  by (simp add: record_pair_def nth_err_def)

lemma random_pairs_match_bound:
  assumes "p \<in> set (random_pairs_match n_a n_b k draw)"
    and "k < n_a * n_b \<Longrightarrow> \<forall>d \<in> set draw. d < n_a * n_b"
  shows "fst p < n_a \<and> snd p < n_b"
proof -
  from assms(1) obtain d where d: "p = (d div n_b, d mod n_b)"
    "d \<in> set (if n_a * n_b \<le> k then [0..<n_a * n_b] else draw)"
    by (auto simp: random_pairs_match_def Let_def)
  from d(2) assms(2) have "d < n_a * n_b" by (auto split: if_splits)
  then have "0 < n_b" by (cases "n_b = 0") simp_all
  from \<open>d < n_a * n_b\<close> have "d div n_b < n_a" by (rule less_mult_imp_div_less)
  with d(1) \<open>0 < n_b\<close> show ?thesis by simp
qed

lemma length_random_pairs_match:
  "length (random_pairs_match n_a n_b k draw) = (if n_a * n_b \<le> k then n_a * n_b else length draw)"
  by (simp add: random_pairs_match_def Let_def)

lemma data_sample_unconstrained:
  assumes "dd_constrained data = Some False" "2 \<le> length (dd_items data)"
    and "k < n_pairs (length (dd_items data)) \<Longrightarrow> sample_ok (n_pairs (length (dd_items data))) k draw"
  shows "\<exists>ps. data_sample data k draw =
      Inr (if n_pairs (length (dd_items data)) < k then [sample_warning k (n_pairs (length (dd_items data)))] else [],
           map (\<lambda>(i, j). (snd (dd_items data ! i), snd (dd_items data ! j))) ps)
    \<and> distinct ps \<and> set ps \<subseteq> {(i, j). i < j \<and> j < length (dd_items data)}
    \<and> length ps = min k (n_pairs (length (dd_items data)))"
proof -
  let ?xs = "map snd (dd_items data)"
  from random_pairs_Inr [of "length ?xs" k draw] assms(2,3) obtain ps where
    ps: "random_pairs (length ?xs) k draw =
           Inr (if n_pairs (length ?xs) < k then [sample_warning k (n_pairs (length ?xs))] else [], ps)"
      "distinct ps" "set ps \<subseteq> {(i, j). i < j \<and> j < length ?xs}" "length ps = min k (n_pairs (length ?xs))"
    by auto
  have "map_err (record_pair ?xs ?xs) ps = Inr (map (\<lambda>(i, j). (?xs ! i, ?xs ! j)) ps)"
  proof (rule map_err_map)
    fix p assume "p \<in> set ps"
    with ps(3) show "record_pair ?xs ?xs p = Inr (case p of (i, j) \<Rightarrow> (?xs ! i, ?xs ! j))"
      by (auto simp: record_pair_nth)
  qed
  moreover have "map (\<lambda>(i, j). (?xs ! i, ?xs ! j)) ps
      = map (\<lambda>(i, j). (snd (dd_items data ! i), snd (dd_items data ! j))) ps"
    using ps(3) by (auto intro!: map_cong)
  ultimately show ?thesis using ps assms(1) by (auto simp: data_sample_def)
qed

lemma data_sample_linkage_ok:
  assumes "dd_constrained data = Some True" "\<forall>r \<in> set (map snd (dd_items data)). r ''dataset'' \<noteq> None"
    and "k < length (filter in_dataset_zero (map snd (dd_items data)))
             * length (filter (\<lambda>r. \<not> in_dataset_zero r) (map snd (dd_items data)))
         \<Longrightarrow> \<forall>d \<in> set draw. d < length (filter in_dataset_zero (map snd (dd_items data)))
             * length (filter (\<lambda>r. \<not> in_dataset_zero r) (map snd (dd_items data)))"
  shows "\<exists>ps. data_sample data k draw = Inr ([], ps)
    \<and> (\<forall>(a, b) \<in> set ps. in_dataset_zero a \<and> \<not> in_dataset_zero b
          \<and> a \<in> set (map snd (dd_items data)) \<and> b \<in> set (map snd (dd_items data)))
    \<and> length ps = length (random_pairs_match (length (filter in_dataset_zero (map snd (dd_items data))))
          (length (filter (\<lambda>r. \<not> in_dataset_zero r) (map snd (dd_items data)))) k draw)"
proof -
  let ?xs = "map snd (dd_items data)"
  let ?as = "filter in_dataset_zero ?xs" and ?bs = "filter (\<lambda>r. \<not> in_dataset_zero r) ?xs"
  let ?ps = "random_pairs_match (length ?as) (length ?bs) k draw"
  have split: "split_datasets ?xs = Inr (?as, ?bs)" using assms(2) by (simp add: split_datasets_spec)
  have "map_err (record_pair ?as ?bs) ?ps = Inr (map (\<lambda>(i, j). (?as ! i, ?bs ! j)) ?ps)"
  proof (rule map_err_map)
    fix p assume "p \<in> set ?ps"
    from random_pairs_match_bound [OF this assms(3)]
    show "record_pair ?as ?bs p = Inr (case p of (i, j) \<Rightarrow> (?as ! i, ?bs ! j))"
      by (cases p) (simp add: record_pair_nth)
  qed
  then have eq: "data_sample data k draw = Inr ([], map (\<lambda>(i, j). (?as ! i, ?bs ! j)) ?ps)"
    using assms(1) split by (simp add: data_sample_def)
  let ?out = "map (\<lambda>(i, j). (?as ! i, ?bs ! j)) ?ps"
  have mem: "in_dataset_zero a \<and> \<not> in_dataset_zero b \<and> a \<in> set ?xs \<and> b \<in> set ?xs"
    if "(a, b) \<in> set ?out" for a b
  proof -
    from that obtain i j where ij: "(i, j) \<in> set ?ps" "a = ?as ! i" "b = ?bs ! j" by auto
    from random_pairs_match_bound [OF ij(1) assms(3)] have i: "i < length ?as" and j: "j < length ?bs"
      by simp_all
    have "a \<in> set ?as" unfolding ij(2) using i by (rule nth_mem)
    moreover have "b \<in> set ?bs" unfolding ij(3) using j by (rule nth_mem)
    ultimately show ?thesis by (simp only: set_filter mem_Collect_eq) simp
  qed
  have all: "\<forall>(a, b) \<in> set ?out. in_dataset_zero a \<and> \<not> in_dataset_zero b \<and> a \<in> set ?xs \<and> b \<in> set ?xs"
  proof
    fix p assume p: "p \<in> set ?out"
    obtain a b where ab: "p = (a, b)" by fastforce
    from mem [of a b] p show "case p of (a, b) \<Rightarrow> in_dataset_zero a \<and> \<not> in_dataset_zero b \<and> a \<in> set ?xs \<and> b \<in> set ?xs"
      unfolding ab by simp
  qed
  have len: "length ?out = length ?ps" by simp
  show ?thesis
    by (rule exI [of _ ?out], intro conjI, fact eq, fact all, fact len)
qed

section \<open>Lemmas on \<open>blockData\<close>\<close>

lemma set_update_same:
  "distinct (map fst d) \<Longrightarrow> \<forall>(a, b) \<in> set d. a = rid \<longrightarrow> b = r \<Longrightarrow>
   set (AList.update rid r d) = insert (rid, r) (set d)"
  by (induction d) auto

lemma map_fst_update:
  "map fst (AList.update k v al) = (if k \<in> set (map fst al) then map fst al else map fst al @ [k])"
  by (induction al) auto

lemma update_not_Nil: "AList.update k v al \<noteq> []"
  by (induction al) auto

lemma map_of_block_add:
  "map_of (block_add k rid r bl) k' =
     (if k' = k then Some (AList.update rid r (case map_of bl k of None \<Rightarrow> [] | Some d \<Rightarrow> d))
      else map_of bl k')"
  by (cases "map_of bl k")
     (auto simp: block_add_def dd_get_def update_conv map_of_append map_add_def split: option.splits)

lemma keys_block_add:
  "map fst (block_add k rid r bl) = (if k \<in> set (map fst bl) then map fst bl else map fst bl @ [k])"
proof (cases "map_of bl k")
  case None
  then have "k \<notin> set (map fst bl)" by (simp add: map_of_eq_None_iff)
  with None show ?thesis by (simp add: block_add_def dd_get_def map_fst_update)
next
  case (Some d)
  then have "k \<in> set (map fst bl)" by (force dest: map_of_SomeD)
  with Some show ?thesis by (simp add: block_add_def dd_get_def map_fst_update)
qed

lemma rev_remdups_snoc:
  "rev (remdups (rev (xs @ [k]))) = (if k \<in> set xs then rev (remdups (rev xs)) else rev (remdups (rev xs)) @ [k])"
  by simp

lemma block_add_wf:
  assumes wf: "blocks_wf bl" and own: "\<forall>k' x. x \<in> blocks_abs bl k' \<longrightarrow> fst x = rid \<longrightarrow> x = (rid, r)"
  shows "blocks_wf (block_add k rid r bl)"
    and "blocks_abs (block_add k rid r bl) = (blocks_abs bl)(k := insert (rid, r) (blocks_abs bl k))"
proof -
  let ?old = "case map_of bl k of None \<Rightarrow> [] | Some d \<Rightarrow> d"
  have old0: "distinct (map fst ?old) \<and> (\<forall>(a, b) \<in> set ?old. a = rid \<longrightarrow> b = r) \<and> set ?old = blocks_abs bl k"
  proof (cases "map_of bl k")
    case None
    then show ?thesis by (simp add: blocks_abs_def)
  next
    case (Some d)
    with wf have "distinct (map fst d)" by (simp add: blocks_wf_def del: map_of_eq_Some_iff)
    moreover have "\<forall>(a, b) \<in> set d. a = rid \<longrightarrow> b = r"
    proof clarify
      fix b assume "(rid, b) \<in> set d"
      moreover from Some have "blocks_abs bl k = set d" by (simp add: blocks_abs_def)
      ultimately show "b = r" using own by auto
    qed
    ultimately show ?thesis using Some by (simp add: blocks_abs_def del: map_of_eq_Some_iff)
  qed
  note old = conjunct1 [OF old0] conjunct1 [OF conjunct2 [OF old0]] conjunct2 [OF conjunct2 [OF old0]]
  have dist: "distinct (map fst (block_add k rid r bl))"
    using wf by (simp add: keys_block_add blocks_wf_def)
  show "blocks_wf (block_add k rid r bl)"
    using wf old(1) dist
    by (auto simp: blocks_wf_def map_of_block_add distinct_update update_not_Nil simp del: map_of_eq_Some_iff)
  show "blocks_abs (block_add k rid r bl) = (blocks_abs bl)(k := insert (rid, r) (blocks_abs bl k))"
    using set_update_same [OF old(1,2)] old(3)
    by (auto simp: fun_eq_iff blocks_abs_def map_of_block_add simp del: map_of_eq_Some_iff)
qed

lemma fold_block_add:
  assumes "blocks_wf bl" "\<forall>k' x. x \<in> blocks_abs bl k' \<longrightarrow> fst x = rid \<longrightarrow> x = (rid, r)"
    and "map fst bl = rev (remdups (rev L))"
  shows "blocks_wf (fold (\<lambda>k. block_add k rid r) ks bl)
    \<and> (\<forall>k. blocks_abs (fold (\<lambda>k. block_add k rid r) ks bl) k
          = (if k \<in> set ks then insert (rid, r) (blocks_abs bl k) else blocks_abs bl k))
    \<and> map fst (fold (\<lambda>k. block_add k rid r) ks bl) = rev (remdups (rev (L @ ks)))"
  using assms
proof (induction ks arbitrary: bl L)
  case Nil
  then show ?case by simp
next
  case (Cons k ks)
  let ?bl = "block_add k rid r bl"
  have wf: "blocks_wf ?bl" and abs: "blocks_abs ?bl = (blocks_abs bl)(k := insert (rid, r) (blocks_abs bl k))"
    using block_add_wf [OF Cons.prems(1,2)] by simp_all
  have own: "\<forall>k' x. x \<in> blocks_abs ?bl k' \<longrightarrow> fst x = rid \<longrightarrow> x = (rid, r)"
    using Cons.prems(2) by (simp add: abs)
  have "set (map fst bl) = set L" using Cons.prems(3) by (metis set_remdups set_rev)
  then have keys: "map fst ?bl = rev (remdups (rev (L @ [k])))"
    using Cons.prems(3) by (simp only: keys_block_add rev_remdups_snoc)
  from Cons.IH [OF wf own keys] show ?case by (auto simp: abs)
qed

lemma block_loop_ok:
  "distinct (map fst data) \<Longrightarrow> \<forall>x \<in> set data. snd (keys x) = None \<Longrightarrow> blocks_wf bl \<Longrightarrow>
   \<forall>k x. x \<in> blocks_abs bl k \<longrightarrow> fst x \<notin> fst ` set data \<Longrightarrow> map fst bl = rev (remdups (rev L)) \<Longrightarrow>
   \<exists>bl'. block_loop keys data bl = Inr bl' \<and> blocks_wf bl'
     \<and> (\<forall>k. blocks_abs bl' k = blocks_abs bl k \<union> blocks_spec keys data k)
     \<and> map fst bl' = rev (remdups (rev (L @ concat (map (\<lambda>x. fst (keys x)) data))))"
proof (induction data arbitrary: bl L)
  case Nil
  then show ?case by (simp add: blocks_spec_def)
next
  case (Cons x rs)
  obtain rid r where x: "x = (rid, r)" by fastforce
  obtain ks where ks: "keys (rid, r) = (ks, None)"
    using Cons.prems(2) x by (cases "keys (rid, r)") auto
  let ?bl = "fold (\<lambda>k. block_add k rid r) ks bl"
  have "\<forall>k' y. y \<in> blocks_abs bl k' \<longrightarrow> fst y = rid \<longrightarrow> y = (rid, r)"
    using Cons.prems(4) x by auto
  note F = fold_block_add [OF Cons.prems(3) this Cons.prems(5), of ks]
  have own: "\<forall>k y. y \<in> blocks_abs ?bl k \<longrightarrow> fst y \<notin> fst ` set rs"
    using F Cons.prems(1,4) x by auto
  from Cons.IH [of ?bl "L @ ks"] Cons.prems(1,2) F own obtain bl' where
    bl': "block_loop keys rs ?bl = Inr bl'" "blocks_wf bl'"
      "\<forall>k. blocks_abs bl' k = blocks_abs ?bl k \<union> blocks_spec keys rs k"
      "map fst bl' = rev (remdups (rev (L @ ks @ concat (map (\<lambda>x. fst (keys x)) rs))))"
    by auto
  have "block_loop keys (x # rs) bl = Inr bl'" using bl'(1) ks x by simp
  moreover have "blocks_abs bl' k = blocks_abs bl k \<union> blocks_spec keys (x # rs) k" for k
    using bl'(3) F ks x by (auto simp: blocks_spec_def)
  ultimately show ?case using bl'(2,4) ks x by auto
qed

section \<open>Properties\<close>

text \<open>
  C14. \<open>dataSample\<close> on a data dictionary that is not constrained, with at least two
  records, returns \<open>min(sample_size, n (n - 1) / 2)\<close> pairs of records at positions
  \<open>i < j\<close> of \<open>data.values()\<close>, no two pairs of the same positions, with the
  truncation warning exactly when more pairs were asked than exist. No IndexError
  can arise at lines 30 and 34.
\<close>
theorem data_sample_pairs:
  assumes "dd_constrained data = Some False" "2 \<le> length (dd_items data)"
    and "k < n_pairs (length (dd_items data)) \<Longrightarrow> sample_ok (n_pairs (length (dd_items data))) k draw"
  shows "\<exists>ps. data_sample data k draw =
      Inr (if n_pairs (length (dd_items data)) < k then [sample_warning k (n_pairs (length (dd_items data)))] else [],
           map (\<lambda>(i, j). (snd (dd_items data ! i), snd (dd_items data ! j))) ps)
    \<and> distinct ps \<and> set ps \<subseteq> {(i, j). i < j \<and> j < length (dd_items data)}
    \<and> length ps = min k (n_pairs (length (dd_items data)))"
  by (rule data_sample_unconstrained [OF assms])

text \<open>
  C19. For record linkage (\<open>data.constrained\<close> true, every record tagged), every sampled
  pair takes its first record from dataset 0 and its second from the other dataset,
  and \<open>dataSample\<close> returns one pair per number \<open>randomPairsMatch\<close> gives.
\<close>
theorem data_sample_linkage:
  assumes "dd_constrained data = Some True" "\<forall>r \<in> set (map snd (dd_items data)). r ''dataset'' \<noteq> None"
    and "k < length (filter in_dataset_zero (map snd (dd_items data)))
             * length (filter (\<lambda>r. \<not> in_dataset_zero r) (map snd (dd_items data)))
         \<Longrightarrow> \<forall>d \<in> set draw. d < length (filter in_dataset_zero (map snd (dd_items data)))
             * length (filter (\<lambda>r. \<not> in_dataset_zero r) (map snd (dd_items data)))"
  shows "\<exists>ps. data_sample data k draw = Inr ([], ps)
    \<and> (\<forall>(a, b) \<in> set ps. in_dataset_zero a \<and> \<not> in_dataset_zero b
          \<and> a \<in> set (map snd (dd_items data)) \<and> b \<in> set (map snd (dd_items data)))
    \<and> length ps = length (random_pairs_match (length (filter in_dataset_zero (map snd (dd_items data))))
          (length (filter (\<lambda>r. \<not> in_dataset_zero r) (map snd (dd_items data)))) k draw)"
  by (rule data_sample_linkage_ok [OF assms])

text \<open>
  C18. \<open>dataSample\<close> raises AttributeError on a data dictionary without the
  \<open>constrained\<close> attribute (a plain dict, as the test of line 75 passes), and KeyError
  in record linkage when a record has no \<open>dataset\<close> key.
\<close>
theorem data_sample_errors:
  "(dd_constrained data = None \<longrightarrow> data_sample data k draw = Inl (AttributeError ''constrained''))
   \<and> (dd_constrained data = Some True \<longrightarrow> (\<exists>r \<in> set (map snd (dd_items data)). r ''dataset'' = None)
      \<longrightarrow> data_sample data k draw = Inl (KeyError ''dataset''))"
proof (intro conjI impI)
  assume "dd_constrained data = None"
  then show "data_sample data k draw = Inl (AttributeError ''constrained'')" by (simp add: data_sample_def)
next
  assume c: "dd_constrained data = Some True" and m: "\<exists>r \<in> set (map snd (dd_items data)). r ''dataset'' = None"
  from m have "split_datasets (map snd (dd_items data)) = Inl (KeyError ''dataset'')"
    by (simp only: split_datasets_spec) auto
  with c show "data_sample data k draw = Inl (KeyError ''dataset'')" by (simp add: data_sample_def)
qed

text \<open>
  C13. The grouping loop of \<open>blockData\<close> (lines 39-49) implements the spec's Block: for
  records with distinct ids on which the key generator does not raise, the block of
  each key is exactly the set of records the generator gives that key, the keys are in
  order of first appearance, and every block is a non-empty dict.
\<close>
theorem block_loop_refines:
  assumes "distinct (map fst data)" "\<forall>x \<in> set data. snd (keys x) = None"
  shows "\<exists>bl. block_loop keys data [] = Inr bl \<and> blocks_abs bl = blocks_spec keys data
    \<and> map fst bl = rev (remdups (rev (concat (map (\<lambda>x. fst (keys x)) data)))) \<and> blocks_wf bl"
proof -
  from block_loop_ok [OF assms, of "[]" "[]"] obtain bl where
    "block_loop keys data [] = Inr bl" "blocks_wf bl" "\<forall>k. blocks_abs bl k = blocks_spec keys data k"
    "map fst bl = rev (remdups (rev (concat (map (\<lambda>x. fst (keys x)) data))))"
    by (auto simp: blocks_wf_def blocks_abs_def)
  then show ?thesis by (intro exI [of _ bl]) (simp add: fun_eq_iff)
qed

text \<open>
  \<open>blockData\<close> cannot run: it calls \<open>blocker.tfIdfBlocks\<close>, which the Blocker class
  of src/dedupe/blocking.py does not define, so it raises AttributeError on every
  input before any record is grouped.
\<close>
theorem block_data_raises: "block_data keys data = Inl (AttributeError ''tfIdfBlocks'')"
  by (simp add: block_data_def blocker_getattr_def blocker_attrs_def)

text \<open>
  The truncation case of the test of \<open>dataSample\<close> (test_dedupe.py lines 82-86),
  on the records of \<open>DATA\<close> in a data dictionary that is not constrained: asking for
  10000 pairs of the ten records returns every pair of records at positions
  \<open>i < j\<close>, in order, with exactly one warning, whose text is the one the test expects.
\<close>
theorem data_sample_truncation:
  "data_sample sampled_DATA 10000 [] =
     Inr ([''Requested sample of size 10000, only returning 45 possible pairs''],
          map (\<lambda>(i, j). (map snd py_DATA ! i, map snd py_DATA ! j)) (all_pairs 10))"
proof -
  let ?xs = "map snd py_DATA"
  have len: "length ?xs = 10" by (simp add: py_DATA_def test_DATA_def)
  have rp: "random_pairs (length ?xs) 10000 [] =
      Inr ([''Requested sample of size 10000, only returning 45 possible pairs''], all_pairs 10)"
    using random_pairs_tests len by simp
  have "map_err (record_pair ?xs ?xs) (all_pairs 10) = Inr (map (\<lambda>(i, j). (?xs ! i, ?xs ! j)) (all_pairs 10))"
  proof (rule map_err_map)
    fix p assume "p \<in> set (all_pairs 10)"
    with len show "record_pair ?xs ?xs p = Inr (case p of (i, j) \<Rightarrow> (?xs ! i, ?xs ! j))"
      by (auto simp: set_all_pairs record_pair_nth)
  qed
  with rp show ?thesis by (simp add: data_sample_def sampled_DATA_def Let_def)
qed

section \<open>Witnesses\<close>

lemma data_sample_pairs_witness:
  "\<exists>ps. data_sample sampled_DATA 5 (map (pair_index 10) [(1, 8), (5, 7), (1, 2), (3, 7), (2, 9)]) =
      Inr ([], map (\<lambda>(i, j). (snd (py_DATA ! i), snd (py_DATA ! j))) ps)
    \<and> distinct ps \<and> set ps \<subseteq> {(i, j). i < j \<and> j < 10} \<and> length ps = 5"
proof -
  have h: "dd_constrained sampled_DATA = Some False" "2 \<le> length (dd_items sampled_DATA)"
    "sample_ok (n_pairs (length (dd_items sampled_DATA))) 5 (map (pair_index 10) [(1, 8), (5, 7), (1, 2), (3, 7), (2, 9)])"
    by (simp_all add: sampled_DATA_def py_DATA_def test_DATA_def) code_simp
  have e: "dd_items sampled_DATA = py_DATA" "length py_DATA = 10" "n_pairs 10 = 45"
    by (simp_all add: sampled_DATA_def py_DATA_def test_DATA_def n_pairs_def)
  from data_sample_pairs [OF h(1,2) h(3)] show ?thesis by (simp only: e) simp
qed

lemma data_sample_linkage_witness:
  "\<exists>ps. data_sample link_DATA 10 [] = Inr ([], ps) \<and> length ps = 2"
proof -
  have h: "dd_constrained link_DATA = Some True" "\<forall>r \<in> set (map snd (dd_items link_DATA)). r ''dataset'' \<noteq> None"
    by (simp_all add: link_DATA_def)
  have n: "length (filter in_dataset_zero (map snd (dd_items link_DATA))) = 2"
    "length (filter (\<lambda>r. \<not> in_dataset_zero r) (map snd (dd_items link_DATA))) = 1"
    by (simp_all add: link_DATA_def in_dataset_zero_def)
  from data_sample_linkage [OF h, of 10 "[]"] n show ?thesis
    by (auto simp: random_pairs_match_def)
qed

lemma data_sample_errors_witness:
  "data_sample plain_DATA 5 [] = Inl (AttributeError ''constrained'')
   \<and> data_sample untagged_DATA 10 [] = Inl (KeyError ''dataset'')"
proof -
  have "dd_constrained plain_DATA = None" "dd_constrained untagged_DATA = Some True"
    "\<exists>r \<in> set (map snd (dd_items untagged_DATA)). r ''dataset'' = None"
    by (simp_all add: plain_DATA_def untagged_DATA_def link_DATA_def)
  with data_sample_errors [of plain_DATA 5 "[]"] data_sample_errors [of untagged_DATA 10 "[]"]
  show ?thesis by blast
qed

lemma block_loop_refines_witness:
  "\<exists>bl. block_loop first3_keys py_DATA [] = Inr bl \<and> blocks_abs bl = blocks_spec first3_keys py_DATA
     \<and> map fst bl = [''Bob'', ''Cha'', ''Mer'', ''Sue'', ''Jim'', ''Wil'', ''Mar'', ''Kyl'']"
proof -
  have h: "distinct (map fst py_DATA)" "\<forall>x \<in> set py_DATA. snd (first3_keys x) = None"
    by (simp_all add: py_DATA_def test_DATA_def first3_keys_def)
  have k: "rev (remdups (rev (concat (map (\<lambda>x. fst (first3_keys x)) py_DATA))))
      = [''Bob'', ''Cha'', ''Mer'', ''Sue'', ''Jim'', ''Wil'', ''Mar'', ''Kyl'']"
    by code_simp
  from block_loop_refines [OF h] k show ?thesis by auto
qed

end
