(* ===== verification/Clustering.thy ===== *)
theory Clustering
  imports Prelude
begin

text \<open>
  The clustering stage of spec 4.7 (dedupe.clustering is not under src/; it is modelled
  from the spec), checked against the expectations of \<open>ClusteringTest\<close> in
  src/test/test_dedupe.py. Scores are exact rationals. Greedy matching sorts the edges
  at or above the threshold by descending score, ties in input order (a stable sort),
  and commits an edge when neither endpoint is matched yet. Constrained clustering is
  specified as a maximum-weight matching over the edges at or above the threshold; the
  model states what a matching is and its weight, so that an expected result can be
  compared with another matching.
\<close>

type_synonym 'a scored_edge = "('a \<times> 'a) \<times> rat"

section \<open>Greedy matching\<close>

definition above :: "rat \<Rightarrow> 'a scored_edge list \<Rightarrow> 'a scored_edge list" where
  "above t es = filter (\<lambda>(e, s). t \<le> s) es"

definition by_score_desc :: "'a scored_edge list \<Rightarrow> 'a scored_edge list" where
  "by_score_desc es = sort_key (\<lambda>(e, s). - s) es"

fun greedy_commit :: "'a list \<Rightarrow> 'a scored_edge list \<Rightarrow> ('a \<times> 'a) list" where
  "greedy_commit used [] = []"
| "greedy_commit used (((a, b), s) # es) =
     (if a \<in> set used \<or> b \<in> set used then greedy_commit used es
      else (a, b) # greedy_commit (a # b # used) es)"

definition greedy_matching :: "'a scored_edge list \<Rightarrow> rat \<Rightarrow> 'a set list" where
  "greedy_matching es t = map (\<lambda>(a, b). {a, b}) (greedy_commit [] (by_score_desc (above t es)))"

section \<open>Matchings and their weight\<close>

definition edge_of :: "'a scored_edge \<Rightarrow> 'a set" where
  "edge_of e = {fst (fst e), snd (fst e)}"

text \<open>A list of two-element clusters is a matching of the edges at or above \<open>t\<close>:
  every cluster is such an edge and no record is in two clusters.\<close>
definition is_matching :: "'a::linorder scored_edge list \<Rightarrow> rat \<Rightarrow> 'a set list \<Rightarrow> bool" where
  "is_matching es t m \<longleftrightarrow> list_all (\<lambda>c. c \<in> set (map edge_of (above t es))) m
     \<and> distinct (concat (map sorted_list_of_set m))"

definition match_weight :: "'a scored_edge list \<Rightarrow> 'a set list \<Rightarrow> rat" where
  "match_weight es m = sum_list (map (\<lambda>c. case find (\<lambda>e. edge_of e = c) es of Some e \<Rightarrow> snd e | None \<Rightarrow> 0) m)"

section \<open>Hierarchical clustering with complete linkage\<close>

definition edge_score :: "'a scored_edge list \<Rightarrow> 'a \<Rightarrow> 'a \<Rightarrow> rat option" where
  "edge_score es a b = map_option snd (find (\<lambda>e. edge_of e = {a, b}) es)"

text \<open>The similarity of two clusters is their least pairwise score; it is undefined when
  a pair has no edge, and then the clusters may not merge.\<close>
definition linkage :: "'a scored_edge list \<Rightarrow> 'a list \<Rightarrow> 'a list \<Rightarrow> rat option" where
  "linkage es c1 c2 =
     (let ss = [edge_score es a b. a \<leftarrow> c1, b \<leftarrow> c2] in
      if ss \<noteq> [] \<and> list_all (\<lambda>s. s \<noteq> None) ss then Some (min_list (map the ss)) else None)"

text \<open>The permitted merges: pairs of clusters whose linkage reaches the threshold.\<close>
definition merge_candidates :: "'a scored_edge list \<Rightarrow> rat \<Rightarrow> 'a list list \<Rightarrow> ((nat \<times> nat) \<times> rat) list" where
  "merge_candidates es t cs =
     [((i, j), s). i \<leftarrow> [0..<length cs], j \<leftarrow> [Suc i..<length cs],
        s \<leftarrow> (case linkage es (cs ! i) (cs ! j) of Some s \<Rightarrow> if t \<le> s then [s] else [] | None \<Rightarrow> [])]"

text \<open>The most similar permitted merge, the first one on ties.\<close>
fun pick_best :: "((nat \<times> nat) \<times> rat) list \<Rightarrow> ((nat \<times> nat) \<times> rat) option" where
  "pick_best [] = None"
| "pick_best (c # cs) = (case pick_best cs of None \<Rightarrow> Some c | Some d \<Rightarrow> if snd c < snd d then Some d else Some c)"

definition remove_nth :: "nat \<Rightarrow> 'a list \<Rightarrow> 'a list" where
  "remove_nth j xs = take j xs @ drop (Suc j) xs"

lemma pick_best_in: "pick_best cs = Some c \<Longrightarrow> c \<in> set cs"
  by (induction cs arbitrary: c) (auto split: option.splits if_splits)

lemma merge_candidates_bound: "((i, j), s) \<in> set (merge_candidates es t cs) \<Longrightarrow> j < length cs"
  by (auto simp: merge_candidates_def)

function agglomerate :: "'a scored_edge list \<Rightarrow> rat \<Rightarrow> 'a list list \<Rightarrow> 'a list list" where
  "agglomerate es t cs =
     (case pick_best (merge_candidates es t cs) of
        None \<Rightarrow> cs
      | Some ((i, j), s) \<Rightarrow> agglomerate es t (remove_nth j (cs[i := cs ! i @ cs ! j])))"
  by pat_completeness auto
termination
  by (relation "measure (\<lambda>(es, t, cs). length cs)")
     (auto simp: remove_nth_def dest!: pick_best_in merge_candidates_bound)

declare agglomerate.simps [simp del]

definition record_ids :: "'a scored_edge list \<Rightarrow> 'a list" where
  "record_ids es = remdups (concat (map (\<lambda>((a, b), s). [a, b]) es))"

text \<open>Start from singletons, merge while permitted, report the clusters of two or more.\<close>
definition hierarchical :: "'a scored_edge list \<Rightarrow> rat \<Rightarrow> 'a set list" where
  "hierarchical es t = map set (filter (\<lambda>c. 2 \<le> length c) (agglomerate es t (map (\<lambda>a. [a]) (record_ids es))))"

section \<open>The fixtures of ClusteringTest\<close>

text \<open>The fully connected star network of \<open>setUp\<close>, with numbers and with strings as ids.\<close>
definition dupes :: "nat scored_edge list" where
  "dupes =
     [((1,2), 86/100), ((1,3), 72/100), ((1,4), 2/10), ((1,5), 6/10), ((2,3), 86/100),
      ((2,4), 2/10), ((2,5), 72/100), ((3,4), 3/10), ((3,5), 5/10), ((4,5), 72/100)]"

definition str_dupes :: "string scored_edge list" where
  "str_dupes =
     [((''1'',''2''), 86/100), ((''1'',''3''), 72/100), ((''1'',''4''), 2/10), ((''1'',''5''), 6/10),
      ((''2'',''3''), 86/100), ((''2'',''4''), 2/10), ((''2'',''5''), 72/100), ((''3'',''4''), 3/10),
      ((''3'',''5''), 5/10), ((''4'',''5''), 72/100)]"

text \<open>\<open>test_hierarchical\<close>: the thresholds and the expected results.\<close>
definition hierarchical_expected :: "(rat \<times> nat set list) list" where
  "hierarchical_expected = [(1, []), (1/2, [{1, 2, 3}, {4, 5}]), (0, [{1, 2, 3, 4, 5}])]"

definition str_hierarchical_expected :: "(rat \<times> string set list) list" where
  "str_hierarchical_expected = [(1, []), (1/2, [{''1'', ''2'', ''3''}, {''4'', ''5''}]), (0, [{''1'', ''2'', ''3'', ''4'', ''5''}])]"

definition bipartite_dupes :: "nat scored_edge list" where
  "bipartite_dupes =
     [((1,5), 1/10), ((1,6), 72/100), ((1,7), 2/10), ((1,8), 6/10),
      ((2,5), 2/10), ((2,6), 2/10), ((2,7), 72/100), ((2,8), 3/10),
      ((3,5), 24/100), ((3,6), 72/100), ((3,7), 24/100), ((3,8), 65/100),
      ((4,5), 63/100), ((4,6), 96/100), ((4,7), 23/100), ((4,8), 74/100)]"

text \<open>\<open>test_greedy_matching\<close>: the thresholds and the expected results.\<close>
definition greedy_expected :: "(rat \<times> nat set list) list" where
  "greedy_expected =
     [(1/2, [{4, 6}, {2, 7}, {3, 8}]), (0, [{4, 6}, {2, 7}, {8, 3}, {1, 5}]), (8/10, [{4, 6}]), (1, [])]"

text \<open>\<open>test_hungarian\<close>: the thresholds and the expected results.\<close>
definition hungarian_expected :: "(rat \<times> nat set list) list" where
  "hungarian_expected =
     [(1/2, [{3, 8}, {4, 6}, {2, 7}]), (0, [{1, 6}, {2, 7}, {3, 8}, {4, 5}]), (8/10, [{4, 6}]), (1, [])]"

section \<open>Lemmas\<close>

lemma greedy_commit_edges: "(a, b) \<in> set (greedy_commit used es) \<Longrightarrow> \<exists>s. ((a, b), s) \<in> set es"
  by (induction used es rule: greedy_commit.induct) (auto split: if_splits)

lemma greedy_commit_fresh: "(a, b) \<in> set (greedy_commit used es) \<Longrightarrow> a \<notin> set used \<and> b \<notin> set used"
  by (induction used es rule: greedy_commit.induct) (auto split: if_splits)

lemma greedy_commit_distinct:
  "distinct (concat (map (\<lambda>(a, b). sorted_list_of_set {a::'a::linorder, b}) (greedy_commit used es)))"
proof (induction used es rule: greedy_commit.induct)
  case (2 used a b s es)
  have "x \<notin> {a, b}" if "x \<in> set (concat (map (\<lambda>(a, b). sorted_list_of_set {a, b}) (greedy_commit (a # b # used) es)))" for x
    using that greedy_commit_fresh [of _ _ "a # b # used" es]
    by (auto simp del: sorted_list_of_set_insert_remove)
  with 2 show ?case by (auto simp del: sorted_list_of_set_insert_remove)
qed simp

lemma greedy_is_matching: "is_matching es t (greedy_matching es t)"
proof -
  have "c \<in> set (map edge_of (above t es))" if "c \<in> set (greedy_matching es t)" for c
  proof -
    from that obtain a b where ab: "(a, b) \<in> set (greedy_commit [] (by_score_desc (above t es)))" "c = {a, b}"
      by (auto simp: greedy_matching_def)
    from greedy_commit_edges [OF ab(1)] obtain s where "((a, b), s) \<in> set (above t es)"
      by (auto simp: by_score_desc_def)
    with ab(2) show ?thesis by (force simp: edge_of_def)
  qed
  moreover have "map sorted_list_of_set (greedy_matching es t)
      = map (\<lambda>(a, b). sorted_list_of_set {a, b}) (greedy_commit [] (by_score_desc (above t es)))"
    by (simp add: greedy_matching_def case_prod_beta)
  ultimately show ?thesis
    using greedy_commit_distinct [of "[]" "by_score_desc (above t es)"]
    by (simp add: is_matching_def list_all_iff)
qed

lemma greedy_commit_maximal:
  "((a, b), s) \<in> set es \<Longrightarrow>
   a \<in> set used \<or> b \<in> set used \<or> (\<exists>(x, y) \<in> set (greedy_commit used es). a \<in> {x, y} \<or> b \<in> {x, y})"
  by (induction used es rule: greedy_commit.induct) (auto split: if_splits)

text \<open>Greedy matching is maximal: an edge at or above the threshold that it does not
  take has an endpoint in a committed pair.\<close>
lemma greedy_maximal:
  assumes "((a, b), s) \<in> set es" "t \<le> s"
  shows "\<exists>c \<in> set (greedy_matching es t). a \<in> c \<or> b \<in> c"
proof -
  from assms have "((a, b), s) \<in> set (by_score_desc (above t es))"
    by (simp add: by_score_desc_def above_def)
  from greedy_commit_maximal [OF this, of "[]"] show ?thesis
    by (force simp: greedy_matching_def)
qed

section \<open>Properties\<close>

text \<open>
  The expectations of \<open>test_hierarchical\<close> (test_dedupe.py lines 372-380) hold of
  complete-linkage clustering as spec 4.7 describes it: at threshold 1 no cluster
  forms, at 0.5 the clusters are {1, 2, 3} and {4, 5}, at 0 everything is one
  cluster, with numbers and with strings as record ids.
\<close>
theorem hierarchical_tests:
  "map (\<lambda>(t, m). hierarchical dupes t) hierarchical_expected = map snd hierarchical_expected
   \<and> map (\<lambda>(t, m). hierarchical str_dupes t) str_hierarchical_expected = map snd str_hierarchical_expected"
  by code_simp

text \<open>
  The expectations of \<open>test_greedy_matching\<close> (test_dedupe.py lines 395-404) hold
  of greedy matching as spec 4.7 describes it, at each of the four thresholds and in
  the order of the expected lists.
\<close>
theorem greedy_tests: "map (\<lambda>(t, m). greedy_matching bipartite_dupes t) greedy_expected = map snd greedy_expected"
  by code_simp

text \<open>
  The expectations of \<open>test_hungarian\<close> (test_dedupe.py lines 383-393) contradict
  the spec's maximum-weight matching: the result the test expects at threshold 0 is a
  matching of edges scored at least 0.5 whose weight (2.72) exceeds that of the result
  it expects at threshold 0.5 (2.33).
\<close>
theorem hungarian_test_not_max:
  "is_matching bipartite_dupes (1/2) (snd (hungarian_expected ! 0))
   \<and> is_matching bipartite_dupes (1/2) (snd (hungarian_expected ! 1))
   \<and> match_weight bipartite_dupes (snd (hungarian_expected ! 0)) < match_weight bipartite_dupes (snd (hungarian_expected ! 1))"
  by code_simp

end
