(* ===== verification/Spec2Isabelle.thy ===== *)
theory Spec2Isabelle
  imports Examples Convenience Clustering
begin

text \<open>
  \<^bold>\<open>A verification library for dedupe's blocking layer.\<close>

  The program. src/dedupe/blocking.py defines \<open>Blocker\<close>: built over a list of
  compound predicates (\<open>__init__\<close>), it registers the predicates that carry a canopy
  index in \<open>index_fields[field][type]\<close> and \<open>index_predicates\<close>; \<open>__call__\<close> is a
  generator yielding \<open>(block_key + ':' + str(i), record_id)\<close> for every record and
  every key of the i-th compound predicate; \<open>index\<close>, \<open>unindex\<close> and \<open>indexAll\<close>
  fill the shared canopy indexes of a field through \<open>extractIndices\<close> and finalise
  them with \<open>initSearch\<close>; \<open>resetIndices\<close> drops them. src/dedupe/convenience.py
  defines \<open>dataSample\<close>, which draws random record pairs through
  \<open>dedupe.core.randomPairs\<close> / \<open>randomPairsMatch\<close>, and \<open>blockData\<close>, which groups
  the records of a data dictionary by the keys a Blocker yields. The predicates, the
  canopy index and \<open>dedupe.core\<close> are not under src/; they are modelled from spec.md
  (sections 3, 4.1, 6, 8) and from the expectations of src/test/test_dedupe.py.

  The theories, bottom up.
  \<^item> \<open>Prelude\<close>: the Python exceptions (\<open>py_error\<close>), statement sequences that may
    raise after mutating state (\<open>outcome\<close>, \<open>out_fold\<close>), \<open>map_err\<close> for
    fallible maps, \<open>dict\<close> and \<open>defaultdict\<close> as insertion-ordered association lists
    (\<open>dict_get\<close>, \<open>dd_get\<close>, \<open>dd_append\<close> = \<open>index_list()\<close>), and \<open>str\<close> of a
    natural number (\<open>str_nat\<close>) with its inverse \<open>read_nat\<close>.
  \<^item> \<open>Canopy\<close> (spec 4.1): an index is a record of its documents in insertion order,
    the next document id and a search-ready flag; \<open>add\<close> and \<open>remove\<close> clear the
    flag, \<open>initSearch\<close> (\<open>canopy_finalize\<close>) sets it, a query on an index that is
    not ready raises. The TF-IDF similarity is a parameter \<open>sim\<close>.
  \<^item> \<open>Predicates\<close> (spec 3, 4.1): atomic predicates as records with a field, a kind
    and an \<open>index\<close> attribute (a reference into a store of canopy indexes);
    \<open>simple_keys\<close>, \<open>atomic_keys\<close>, and \<open>compound_keys\<close>, the cartesian product of
    the atomic keys joined by \<open>:\<close> after escaping.
  \<^item> \<open>Blocker\<close>: the state. Predicate objects and canopy indexes are shared between
    \<open>predicates\<close>, \<open>index_fields\<close> and \<open>index_predicates\<close>, so they live in an
    explicit \<open>heap\<close> (predicates by identity, indexes by reference, with an
    allocation counter for \<open>initIndex\<close>); the \<open>blocker\<close> record holds identities
    only. \<open>blocker_init\<close> is \<open>__init__\<close> (with \<open>register_pred\<close> and \<open>dd2_append\<close>
    for lines 30-35), \<open>blocker_call\<close> / \<open>call_records\<close> / \<open>call_preds\<close> is
    \<open>__call__\<close> (its output up to the end or the first exception),
    \<open>reset_indices\<close>, \<open>extract_indices\<close>, \<open>blocker_index\<close> (with \<open>add_doc\<close> and
    \<open>publish\<close>), \<open>blocker_unindex\<close> (with \<open>remove_doc\<close>), \<open>field_values\<close> and
    \<open>blocker_index_all\<close> are the other methods, each returning the new Blocker and
    heap, and, on an exception, the state reached when it propagates. Lemmas:
    \<open>__call__\<close> yields exactly the suffixed keys of the predicates, keys of
    different compound predicates never collide, \<open>__call__\<close> is one pass over its
    input, \<open>__init__\<close> registers exactly the index predicates.
  \<^item> \<open>Blocker_Invariant\<close>: the well-formedness \<open>bwf\<close> of a Blocker with its heap
    and the step lemmas of \<open>index\<close> (\<open>field_step\<close>, \<open>field_step_bwf\<close>).
  \<^item> \<open>Blocker_Safety\<close>: \<open>__init__\<close> establishes \<open>bwf\<close>; \<open>index\<close>, \<open>unindex\<close>
    (returning or raising) and \<open>indexAll\<close> keep it; \<open>index\<close> and \<open>indexAll\<close> always
    return on a well-formed Blocker and make the indexes of their fields
    search-ready, after which \<open>__call__\<close> cannot raise; \<open>resetIndices\<close> makes it
    raise again.
  \<^item> \<open>Blocker_Output\<close>: keys read back (\<open>key_base\<close>, \<open>key_ordinal\<close>), the shape of
    every yielded pair, the equivalence of the generator with a list
    comprehension (\<open>blocker_call_ref\<close>), and the number of indexes \<open>index\<close>
    allocates (\<open>unindexed_buckets\<close>).
  \<^item> \<open>Blocker_Lifecycle\<close>: the method calls as a datatype \<open>blocker_op\<close> with the
    dispatch \<open>blocker_exec\<close>, runs of calls whose exceptions are caught
    (\<open>blocker_run\<close>), and the inductive set \<open>reachable\<close> of states a program can
    reach from \<open>__init__\<close>; by rule induction every reachable state is well formed,
    and \<open>indexAll\<close> restores blocking after any history.
  \<^item> \<open>Blocker_Generator\<close>: \<open>__call__\<close> as the generator it is. Its frame
    (\<open>gen\<close>: records left, current record, predicates left, pairs pending) and one
    step of its body (\<open>gen_step\<close>), which yields a pair, logs progress (lines
    59-62, \<open>logs_at\<close>), raises, or stops; \<open>gen_run\<close> drives it to its end. The
    step relation is well-founded (the lexicographic measure \<open>gen_order\<close>), the
    drained generator agrees with \<open>blocker_call\<close>, and progress is logged at every
    non-zero multiple of 10000.
  \<^item> \<open>Random_Pairs\<close> (spec 6, 8): the upper-triangle numbering of record pairs, its
    decoder and inverse (\<open>decode_pair\<close>, \<open>pair_index\<close>), \<open>random_pairs\<close> and
    \<open>random_pairs_match\<close>. The draw of \<open>random.sample\<close> is an input constrained by
    \<open>sample_ok\<close>; the decoder is a \<open>function\<close> whose termination measure is the
    number of rows left.
  \<^item> \<open>Convenience\<close>: \<open>dataSample\<close> (\<open>split_datasets\<close>, \<open>record_pair\<close>,
    \<open>data_sample\<close>) over a data dictionary with an optional \<open>constrained\<close>
    attribute, and \<open>blockData\<close> (\<open>block_add\<close>, \<open>block_loop\<close>, \<open>block_data\<close>)
    over a key function, proved to refine the abstract grouping \<open>blocks_spec\<close>.
  \<^item> \<open>Clustering\<close> (spec 4.7, not under src/): greedy matching (\<open>greedy_matching\<close>,
    a stable descending sort and a commit loop, proved to give a maximal matching) and
    complete-linkage hierarchical clustering (\<open>hierarchical\<close>, whose merge loop
    \<open>agglomerate\<close> terminates because each merge removes a cluster). Both reproduce
    the expectations of \<open>ClusteringTest\<close>; the expectations of \<open>test_hungarian\<close>
    contradict the maximum-weight contract (\<open>is_matching\<close>, \<open>match_weight\<close>).
  \<^item> \<open>Fixtures\<close>, \<open>Examples\<close>: the \<open>DATA\<close> fixture of the tests, a heap of five
    predicates over it, and the concrete runs (by \<open>code_simp\<close>) that witness the
    theorems and exhibit three defects of blocking.py: \<open>unindex\<close> is not atomic,
    \<open>index\<close> on a field without index predicates breaks \<open>indexAll\<close>, and
    \<open>index\<close> on empty data is not the no-op spec 4.2 says it is. They also hold a
    run of \<open>blocker_op\<close> calls with a caught exception, and the first steps of the
    generator.
  \<^item> This theory holds this overview only. The grouping loop of \<open>blockData\<close> is not
    composed with the Blocker: line 46 passes one \<open>(record_id, record)\<close> pair where
    \<open>__call__\<close> iterates over pairs, and line 43 raises before the loop is reached.

  Bounds and fuel. No definition needs fuel: every loop of the code runs over a
  finite list (records, predicates, buckets, documents) and is structural recursion or
  a fold. The non-structural recursions (\<open>row_decode\<close>, \<open>gen_run\<close>,
  \<open>agglomerate\<close>) are \<open>function\<close>s with termination proofs by a measure.
  Integers are unbounded as in Python (\<open>nat\<close>). The progress log of \<open>__call__\<close>
  is modelled as an event (its message text with the elapsed time is not); the
  \<open>print\<close> and \<open>logger.debug\<close> calls only write output and are not modelled.

  Not modelled. The DataModel, distance computation, the affine-gap comparator and
  scoring of spec 4.3-4.6 have no code in this repository, and active learning is
  excluded by spec 1. No modelled operation calls them, and their tests need
  libraries outside the repository (numpy, the C comparator), so their expected values
  do not pin them down: the affine-gap tests rely on an end-gap scaling the spec does
  not describe. The Hungarian solver is
  specified only by its contract, which is modelled. The TF-IDF weighting is
  abstracted into the similarity parameter. The iteration order of Python sets is
  taken as the order of first occurrence.
\<close>

end
